theory Spec2Isabelle
  imports Main "HOL-Library.Word" "HOL-Library.Monad_Syntax" "HOL-Library.Sublist"
begin

unbundle bit_operations_syntax

section \<open>Snack dispenser: constants of \<^verbatim>\<open>snack_dispenser.c\<close>\<close>

text \<open>
  Times are integers: \<^verbatim>\<open>long long\<close> milliseconds as read by \<^verbatim>\<open>now_ms\<close>, and a
  microsecond clock for the sleeps. The C \<^verbatim>\<open>long long\<close> arithmetic on them is modelled on
  \<open>int\<close>; the one narrowing conversion of the source, the cast \<^verbatim>\<open>(int)\<close> in
  \<^verbatim>\<open>timer_seconds_left\<close>, is written out as a wrap to 32 bits.
\<close>

definition IDLE_MS :: int where "IDLE_MS = 9000"
definition SVC_GATE_TIMEOUT_MS :: int where "SVC_GATE_TIMEOUT_MS = 8000"
definition RETURN_GATE_TIMEOUT_MS :: int where "RETURN_GATE_TIMEOUT_MS = 8000"
definition MAX_COUNT :: int where "MAX_COUNT = 15"

definition IMG_MENU :: string where "IMG_MENU = ''/tmp/menu.jpg''"
definition IMG_THANKS :: string where "IMG_THANKS = ''/tmp/success.jpg''"
definition IMG_SERVICE_MANUAL :: string where "IMG_SERVICE_MANUAL = ''/tmp/service.jpg''"
definition IMG_MENU_SERVICE :: string where "IMG_MENU_SERVICE = ''/tmp/menu_service.jpg''"
definition IMG_RESTOCK :: string where "IMG_RESTOCK = ''/tmp/restock.jpg''"
definition IMG_SOUND :: string where "IMG_SOUND = ''/tmp/sound.jpg''"
definition IMG_MOTOR :: string where "IMG_MOTOR = ''/tmp/motor.jpg''"

definition door_frames :: "string list" where
  "door_frames = [''/tmp/door_1.jpg'', ''/tmp/door_2.jpg'', ''/tmp/door_3.jpg'', ''/tmp/door_4.jpg'']"
definition DOOR_N :: int where "DOOR_N = 4"
definition DOOR_FRAME_MS :: int where "DOOR_FRAME_MS = 800"

definition disp_frames :: "string list" where
  "disp_frames = [''/tmp/disp_1.jpg'', ''/tmp/disp_2.jpg'', ''/tmp/disp_3.jpg'', ''/tmp/disp_4.jpg'']"
definition DISP_N :: int where "DISP_N = 4"
definition DISP_FRAME_MS :: int where "DISP_FRAME_MS = DOOR_FRAME_MS"

section \<open>The countdown projection\<close>

text \<open>The conversion \<^verbatim>\<open>(int)\<close> of a \<^verbatim>\<open>long long\<close>: the low 32 bits, read as two's complement.\<close>

definition to_int32 :: "int \<Rightarrow> int" where
  "to_int32 x = sint (word_of_int x :: 32 word)"

text \<open>
  \<^verbatim>\<open>timer_seconds_left\<close>, with the module variable \<^verbatim>\<open>idle_deadline\<close> as first argument.
  The division is applied to a positive numerator only, where C's truncation and \<open>div\<close> agree.
\<close>

definition timer_seconds_left :: "int \<Rightarrow> int \<Rightarrow> int" where
  "timer_seconds_left idle_deadline t =
     (if idle_deadline \<le> 0 then - 1
      else let rem = idle_deadline - t in
        if rem \<le> 0 then 0
        else let sec = to_int32 ((rem + 999) div 1000);
                 sec = (if sec > 9 then 9 else sec);
                 sec = (if sec < 0 then 0 else sec)
             in sec)"

section \<open>The animation engine\<close>

record anim =
  active :: bool
  frames :: "string list"
  nframes :: int
  idx :: int
  direction :: int
  next_ms :: int
  frame_ms :: int
  oneshot_done :: bool

text \<open>\<^verbatim>\<open>anim_start\<close>; the last argument is the reading of \<^verbatim>\<open>now_ms()\<close>.\<close>

definition anim_start :: "anim \<Rightarrow> string list \<Rightarrow> int \<Rightarrow> int \<Rightarrow> int \<Rightarrow> int \<Rightarrow> anim" where
  "anim_start a fr n dir fms now =
     (let d = (if dir \<ge> 0 then 1 else - 1) in
      a\<lparr>active := True, frames := fr, nframes := n, direction := d, frame_ms := fms,
        oneshot_done := False, idx := (if d > 0 then 0 else n - 1), next_ms := now\<rparr>)"

definition file_exists :: "string list \<Rightarrow> string \<Rightarrow> bool" where
  "file_exists files p = (p \<in> set files)"

text \<open>
  \<^verbatim>\<open>anim_tick\<close> at the clock reading \<open>t\<close>: the new track and the image handed to
  \<^verbatim>\<open>show_image\<close>, if any. Reading \<^verbatim>\<open>frames[idx]\<close> outside the array has no defined
  result in C; the model returns \<open>None\<close> there.
\<close>

definition anim_tick_core :: "string list \<Rightarrow> int \<Rightarrow> anim \<Rightarrow> (anim \<times> string option) option" where
  "anim_tick_core files t a =
     (if \<not> active a \<or> oneshot_done a then Some (a, None)
      else if t < next_ms a then Some (a, None)
      else if idx a < 0 \<or> int (length (frames a)) \<le> idx a then None
      else
        let p = frames a ! nat (idx a);
            p = (if file_exists files p then p else IMG_MENU);
            a = a\<lparr>next_ms := t + frame_ms a\<rparr>
        in Some
          (if direction a > 0 then
             (if idx a = nframes a - 1 then a\<lparr>oneshot_done := True, active := False\<rparr>
              else a\<lparr>idx := idx a + 1\<rparr>)
           else
             (if idx a = 0 then a\<lparr>oneshot_done := True, active := False\<rparr>
              else a\<lparr>idx := idx a - 1\<rparr>),
           Some p))"

text \<open>A track is armed between \<^verbatim>\<open>anim_start\<close> and its completion.\<close>

definition armed :: "anim \<Rightarrow> bool" where
  "armed a = (active a \<and> \<not> oneshot_done a)"

text \<open>An active track has its index inside its frames and a direction of travel.\<close>

definition wf_anim :: "anim \<Rightarrow> bool" where
  "wf_anim a = (active a \<longrightarrow>
     0 \<le> idx a \<and> idx a < int (length (frames a)) \<and> nframes a = int (length (frames a))
     \<and> (direction a = 1 \<or> direction a = - 1))"

text \<open>The frame at the end of the travel: the last one forwards, frame 0 backwards.\<close>

definition terminal :: "anim \<Rightarrow> bool" where
  "terminal a = (if direction a > 0 then idx a = nframes a - 1 else idx a = 0)"

definition shown_as :: "string list \<Rightarrow> string \<Rightarrow> string" where
  "shown_as files p = (if file_exists files p then p else IMG_MENU)"

text \<open>Ticking a track at successive clock readings, collecting the images shown in order.\<close>

fun anim_run :: "string list \<Rightarrow> int list \<Rightarrow> anim \<Rightarrow> (anim \<times> string list) option" where
  "anim_run files [] a = Some (a, [])"
| "anim_run files (t # ts) a =
     (case anim_tick_core files t a of
        None \<Rightarrow> None
      | Some (a', sh) \<Rightarrow>
          (case anim_run files ts a' of
             None \<Rightarrow> None
           | Some (a'', shs) \<Rightarrow> Some (a'', (case sh of None \<Rightarrow> [] | Some p \<Rightarrow> [p]) @ shs)))"

text \<open>The frames a track has still to show, in the order of its travel.\<close>

definition pending :: "anim \<Rightarrow> string list" where
  "pending a =
     (if \<not> armed a then []
      else if direction a > 0 then drop (nat (idx a)) (frames a)
      else rev (take (nat (idx a) + 1) (frames a)))"

definition travel :: "int \<Rightarrow> string list \<Rightarrow> string list" where
  "travel dir fr = (if dir \<ge> 0 then fr else rev fr)"


section \<open>Drivers, clock and machine state\<close>

text \<open>
  What the program sends to its peripherals is kept as a trace, newest event first.
  The text written to the LCD is not recorded (it never feeds back into the control flow).
  \<open>EvMotor p\<close> is \<^verbatim>\<open>motor_write_phase\<close> driving \<^verbatim>\<open>full_seq_drive[p]\<close>, with
  \<open>p\<close> the index \<^verbatim>\<open>phase & 3\<close>; \<open>EvMotorStop\<close> is the write of \<^verbatim>\<open>0x00\<close> to the motor port.
\<close>

datatype event =
    EvImage string
  | EvLcd
  | EvSeg "int option"
  | EvTone int int int int
  | EvMotor int
  | EvMotorStop

datatype st =
    ST_MENU | ST_AMOUNT | ST_PAY
  | ST_SVC_GATE | ST_RETURN_GATE
  | ST_DOOR_OPENING | ST_DOOR_CLOSING
  | ST_SVC_MENU
  | ST_SVC_DISPENSE_IDX | ST_SVC_DISPENSE_AMT
  | ST_SVC_RESTOCK_IDX | ST_SVC_RESTOCK_QTY
  | ST_SVC_SOUND_SEL | ST_SVC_MOTOR_CYC
  | ST_DISPENSING

text \<open>An \<^verbatim>\<open>Item\<close>; the price only feeds the LCD text and is left out.\<close>

record item =
  index :: int
  name :: string
  img :: string
  img_oos :: string
  stock :: int

definition LEDPORT_NORMAL :: "8 word" where "LEDPORT_NORMAL = 0x3A"
definition LCDPORT_NORMAL :: "8 word" where "LCDPORT_NORMAL = 0x3B"
definition SMPORT_NORMAL :: "8 word" where "SMPORT_NORMAL = 0x39"
definition KBDPORT_NORMAL :: "8 word" where "KBDPORT_NORMAL = 0x3C"
definition LEDPORT_ADMIN :: "8 word" where "LEDPORT_ADMIN = 0x1A"
definition LCDPORT_ADMIN :: "8 word" where "LCDPORT_ADMIN = 0x1B"
definition SMPORT_ADMIN :: "8 word" where "SMPORT_ADMIN = 0x19"
definition KBDPORT_ADMIN :: "8 word" where "KBDPORT_ADMIN = 0x1C"

text \<open>
  The file-scope variables of the source and the locals of \<^verbatim>\<open>main\<close>, with the
  environment: \<open>clock\<close> is the monotonic clock in microseconds, \<open>files\<close> the image files
  that exist, \<open>out\<close> the trace. The buffers \<^verbatim>\<open>selbuf\<close>, \<^verbatim>\<open>amtbuf\<close>, \<^verbatim>\<open>svcbuf\<close> are
  strings; their lengths \<^verbatim>\<open>sellen\<close>, \<^verbatim>\<open>amtlen\<close>, \<^verbatim>\<open>svclen\<close> are always written
  together with the terminating NUL and are the lengths of these strings.
  \<open>phase\<close> and \<open>spin_phase\<close> are the \<^verbatim>\<open>static int phase\<close> of
  \<^verbatim>\<open>run_one_dispense_cycle_with_anim\<close> and of \<^verbatim>\<open>motor_spin_one_cycle\<close>.
\<close>

record machine =
  clock :: int
  files :: "string list"
  out :: "event list"
  gLedPort :: "8 word"
  gLcdPort :: "8 word"
  gSmPort :: "8 word"
  gKbdPort :: "8 word"
  pqiv_count :: int
  gDoorAnim :: anim
  gDispAnim :: anim
  idle_deadline :: int
  last_shown :: int
  svc_blink_next :: int
  svc_blink_on :: bool
  phase :: int
  spin_phase :: int
  items :: "item list"
  st :: st
  selbuf :: string
  amtbuf :: string
  svcbuf :: string
  chosen_slot :: int
  amount :: int
  pay_zero_count :: int
  index_timer_active :: bool
  service_mode :: bool
  svc_gate_deadline :: int
  return_gate_deadline :: int
  svc_disp_slot :: int
  restock_slot :: int

text \<open>
  Time passes in the sleeps only: \<^verbatim>\<open>usleep n\<close> advances the clock by \<open>n\<close> microseconds
  and every other statement is instantaneous.
\<close>

definition now_ms :: "machine \<Rightarrow> int" where
  "now_ms s = clock s div 1000"

definition usleep :: "int \<Rightarrow> machine \<Rightarrow> machine" where
  "usleep n s = s\<lparr>clock := clock s + n\<rparr>"

definition emit :: "event \<Rightarrow> machine \<Rightarrow> machine" where
  "emit e s = s\<lparr>out := e # out s\<rparr>"

definition set_port_mapping :: "bool \<Rightarrow> machine \<Rightarrow> machine" where
  "set_port_mapping admin s =
     (if admin then
        s\<lparr>gLedPort := LEDPORT_ADMIN, gLcdPort := LCDPORT_ADMIN,
          gSmPort := SMPORT_ADMIN, gKbdPort := KBDPORT_ADMIN\<rparr>
      else
        s\<lparr>gLedPort := LEDPORT_NORMAL, gLcdPort := LCDPORT_NORMAL,
          gSmPort := SMPORT_NORMAL, gKbdPort := KBDPORT_NORMAL\<rparr>)"

definition port_mapping :: "machine \<Rightarrow> 8 word \<times> 8 word \<times> 8 word \<times> 8 word" where
  "port_mapping s = (gLedPort s, gLcdPort s, gSmPort s, gKbdPort s)"

definition seg_blank :: "machine \<Rightarrow> machine" where
  "seg_blank s = emit (EvSeg None) s"

definition seg_show_digit :: "int \<Rightarrow> machine \<Rightarrow> machine" where
  "seg_show_digit d s = (if d < 0 \<or> d > 9 then seg_blank s else emit (EvSeg (Some d)) s)"

definition PQIV_KEEP :: int where "PQIV_KEEP = 8"

text \<open>
  \<^verbatim>\<open>show_image\<close>, with \<^verbatim>\<open>fork\<close> taken to succeed: once eight viewers are running the
  oldest one is killed first, which sleeps 60 ms in \<^verbatim>\<open>kill_pid_soft_hard\<close>.
\<close>

definition show_image :: "string \<Rightarrow> machine \<Rightarrow> machine" where
  "show_image path s =
     (let s = (if pqiv_count s \<ge> PQIV_KEEP then usleep 60000 s else s);
          s = emit (EvImage path) s;
          s = (if pqiv_count s < PQIV_KEEP then s\<lparr>pqiv_count := pqiv_count s + 1\<rparr> else s)
      in usleep 25000 s)"

text \<open>
  \<^verbatim>\<open>lcd_print2\<close> sleeps a fixed time: \<^verbatim>\<open>initlcd\<close> 3 * 20000 and nine commands,
  \<^verbatim>\<open>lcd_clear\<close> one command and 2000, two more commands and 32 characters, where each
  command or character sleeps 10 + 200 + 10 + 2000.
\<close>

definition LCD_PRINT2_US :: int where
  "LCD_PRINT2_US = (3 * 20000 + 9 * 2220) + (2220 + 2000) + 2220 + 16 * 2220 + 2220 + 16 * 2220"

definition lcd_print2 :: "machine \<Rightarrow> machine" where
  "lcd_print2 s = usleep LCD_PRINT2_US (emit EvLcd s)"

text \<open>
  The loop of \<^verbatim>\<open>beep_square\<close>: each period sleeps twice the half period until the
  clock reaches \<open>end\<close>. Every call of the source passes a positive half period.
\<close>

function beep_wait :: "int \<Rightarrow> int \<Rightarrow> int \<Rightarrow> int" where
  "beep_wait end_ms half_period_us c =
     (if c div 1000 < end_ms \<and> 0 < half_period_us
      then beep_wait end_ms half_period_us (c + 2 * half_period_us) else c)"
  by pat_completeness auto
termination
  by (relation "measure (\<lambda>(e, hp, c). nat (e * 1000 - c))") auto

declare beep_wait.simps [simp del]

definition beep_square :: "int \<Rightarrow> int \<Rightarrow> int \<Rightarrow> int \<Rightarrow> machine \<Rightarrow> machine" where
  "beep_square duration_ms half_period_us hi lo s =
     (emit (EvTone duration_ms half_period_us hi lo) s)
       \<lparr>clock := beep_wait (now_ms s + duration_ms) half_period_us (clock s)\<rparr>"

definition beep_keypress :: "machine \<Rightarrow> machine" where
  "beep_keypress s = beep_square 25 650 200 20 s"

definition beep_error :: "machine \<Rightarrow> machine" where
  "beep_error s = beep_square 140 1400 180 0 s"

definition beep_success :: "machine \<Rightarrow> machine" where
  "beep_success s = beep_square 70 500 220 10 (usleep 35000 (beep_square 70 800 220 10 s))"

definition beep_payment_ok :: "machine \<Rightarrow> machine" where
  "beep_payment_ok s = beep_square 60 650 220 0 (usleep 20000 (beep_square 60 900 220 0 s))"

definition beep_dispensing_slot :: "int \<Rightarrow> machine \<Rightarrow> machine" where
  "beep_dispensing_slot slot s =
     (if slot = 1 then beep_square 180 900 220 0 s
      else if slot = 2 then beep_square 220 700 220 0 s
      else if slot = 3 then beep_square 260 550 220 0 s
      else if slot = 4 then beep_square 320 450 220 0 s
      else beep_square 200 650 220 0 s)"

text \<open>The cue of every error path.\<close>

definition error_cue :: event where
  "error_cue = EvTone 140 1400 180 0"

subsection \<open>Items\<close>

fun find_slot_from :: "int \<Rightarrow> item list \<Rightarrow> int \<Rightarrow> int" where
  "find_slot_from i [] want = - 1"
| "find_slot_from i (it # its) want = (if index it = want then i else find_slot_from (i + 1) its want)"

definition find_slot_by_index :: "item list \<Rightarrow> int \<Rightarrow> int" where
  "find_slot_by_index its want = find_slot_from 0 its want"

text \<open>\<^verbatim>\<open>items[i]\<close>: outside the array the C program has no defined behaviour.\<close>

definition item_at :: "item list \<Rightarrow> int \<Rightarrow> item option" where
  "item_at its i = (if 0 \<le> i \<and> i < int (length its) then Some (its ! nat i) else None)"

definition set_stock :: "int \<Rightarrow> int \<Rightarrow> item list \<Rightarrow> item list" where
  "set_stock i v its = its[nat i := (its ! nat i)\<lparr>stock := v\<rparr>]"

definition catalog :: "item list" where
  "catalog =
     [\<lparr>index = 3, name = ''Cheetos'', img = ''/tmp/cheetos.jpg'', img_oos = ''/tmp/cheetos_oos.jpg'', stock = 1\<rparr>,
      \<lparr>index = 8, name = ''Lays'', img = ''/tmp/lays.jpg'', img_oos = ''/tmp/lays_oos.jpg'', stock = 2\<rparr>,
      \<lparr>index = 11, name = ''Doritos'', img = ''/tmp/doritos.jpg'', img_oos = ''/tmp/doritos_oos.jpg'', stock = 3\<rparr>,
      \<lparr>index = 22, name = ''Pocky'', img = ''/tmp/pocky.jpg'', img_oos = ''/tmp/pocky_oos.jpg'', stock = 4\<rparr>]"

subsection \<open>Keys and buffers\<close>

definition KEY_BACK :: char where "KEY_BACK = CHR ''A''"
definition KEY_ENTER :: char where "KEY_ENTER = CHR ''B''"

text \<open>\<^verbatim>\<open>ScanKey\<close> returns \<^verbatim>\<open>0xFF\<close> when no key is down.\<close>

definition NO_KEY :: char where "NO_KEY = CHR 0xFF"

definition isdigit :: "char \<Rightarrow> bool" where
  "isdigit k = (k \<in> set ''0123456789'')"

text \<open>
  \<^verbatim>\<open>atoi\<close> on the buffers of this program, which hold digit keys only: the value of
  the leading decimal digits.
\<close>

definition atoi :: "string \<Rightarrow> int" where
  "atoi b = foldl (\<lambda>n c. 10 * n + (int (of_char c) - 48)) 0 (takeWhile isdigit b)"

text \<open>Appending a key to a buffer that holds at most \<open>cap\<close> characters.\<close>

definition buf_push :: "nat \<Rightarrow> char \<Rightarrow> string \<Rightarrow> string" where
  "buf_push cap k b = (if length b < cap then b @ [k] else b)"

subsection \<open>Idle countdown and service blink\<close>

definition timer_start_or_reset :: "machine \<Rightarrow> machine" where
  "timer_start_or_reset s = s\<lparr>idle_deadline := now_ms s + IDLE_MS, last_shown := - 1\<rparr>"

definition timer_update_display :: "int \<Rightarrow> machine \<Rightarrow> machine" where
  "timer_update_display t s =
     (let left = timer_seconds_left (idle_deadline s) t in
      if left < 0 then s
      else if left \<noteq> last_shown s then (seg_show_digit left s)\<lparr>last_shown := left\<rparr>
      else s)"

definition timer_stop_and_blank :: "machine \<Rightarrow> machine" where
  "timer_stop_and_blank s = seg_blank (s\<lparr>idle_deadline := 0, last_shown := - 1\<rparr>)"

definition service_blink_tick :: "int \<Rightarrow> machine \<Rightarrow> machine" where
  "service_blink_tick t s =
     (if svc_blink_next s = 0 then
        seg_show_digit 0 (s\<lparr>svc_blink_next := t + 500, svc_blink_on := True\<rparr>)
      else if t \<ge> svc_blink_next s then
        (let s = s\<lparr>svc_blink_next := svc_blink_next s + 500, svc_blink_on := \<not> svc_blink_on s\<rparr>
         in if svc_blink_on s then seg_show_digit 0 s else seg_blank s)
      else s)"

definition service_blink_reset :: "machine \<Rightarrow> machine" where
  "service_blink_reset s = seg_show_digit 0 (s\<lparr>svc_blink_next := 0, svc_blink_on := True\<rparr>)"

definition service_menu_screen :: "machine \<Rightarrow> machine" where
  "service_menu_screen s = lcd_print2 (show_image IMG_SERVICE_MANUAL s)"

definition show_service_gate_prompt :: "machine \<Rightarrow> machine" where
  "show_service_gate_prompt s = lcd_print2 (show_image IMG_MENU s)"

definition show_return_gate_prompt :: "machine \<Rightarrow> machine" where
  "show_return_gate_prompt s = lcd_print2 (show_image IMG_SERVICE_MANUAL s)"

text \<open>The prompt of the customer menu: \<^verbatim>\<open>show_image(IMG_MENU); lcd_print2(...)\<close>.\<close>

definition menu_screen :: "machine \<Rightarrow> machine" where
  "menu_screen s = lcd_print2 (show_image IMG_MENU s)"

subsection \<open>Animation tracks in the machine\<close>

definition show_opt :: "string option \<Rightarrow> machine \<Rightarrow> machine" where
  "show_opt sh s = (case sh of None \<Rightarrow> s | Some p \<Rightarrow> show_image p s)"

text \<open>\<^verbatim>\<open>anim_tick(&gDoorAnim)\<close> and \<^verbatim>\<open>anim_tick(&gDispAnim)\<close>.\<close>

definition anim_tick_door :: "machine \<Rightarrow> machine option" where
  "anim_tick_door s =
     (case anim_tick_core (files s) (now_ms s) (gDoorAnim s) of
        None \<Rightarrow> None
      | Some (a, sh) \<Rightarrow> Some ((show_opt sh s)\<lparr>gDoorAnim := a\<rparr>))"

definition anim_tick_disp :: "machine \<Rightarrow> machine option" where
  "anim_tick_disp s =
     (case anim_tick_core (files s) (now_ms s) (gDispAnim s) of
        None \<Rightarrow> None
      | Some (a, sh) \<Rightarrow> Some ((show_opt sh s)\<lparr>gDispAnim := a\<rparr>))"

subsection \<open>Motor\<close>

definition TOTAL_STEPS_PER_ITEM :: nat where "TOTAL_STEPS_PER_ITEM = 60"
definition DISPENSE_CYCLE_US :: int where "DISPENSE_CYCLE_US = 3000000"
definition DISP_PHASE_DELAY_US :: int where
  "DISP_PHASE_DELAY_US = DISPENSE_CYCLE_US div (int TOTAL_STEPS_PER_ITEM * 4)"
definition MOTOR_STEPS_PER_CYCLE :: nat where "MOTOR_STEPS_PER_CYCLE = 18"
definition MOTOR_PHASE_DELAY_US :: int where "MOTOR_PHASE_DELAY_US = 4500"

definition motor_write_phase :: "int \<Rightarrow> machine \<Rightarrow> machine" where
  "motor_write_phase ph s = emit (EvMotor (ph AND 3)) s"

definition motor_stop :: "machine \<Rightarrow> machine" where
  "motor_stop s = emit EvMotorStop s"

text \<open>A \<^verbatim>\<open>for\<close> loop that runs its body a fixed number of times.\<close>

fun repeat :: "nat \<Rightarrow> (machine \<Rightarrow> machine option) \<Rightarrow> machine \<Rightarrow> machine option" where
  "repeat 0 body s = Some s"
| "repeat (Suc n) body s = (case body s of None \<Rightarrow> None | Some s' \<Rightarrow> repeat n body s')"

text \<open>The body of the inner loop of \<^verbatim>\<open>run_one_dispense_cycle_with_anim\<close>.\<close>

definition disp_phase_step :: "machine \<Rightarrow> machine option" where
  "disp_phase_step s =
     (let s = motor_write_phase (phase s) s;
          s = s\<lparr>phase := (phase s + 1) AND 3\<rparr>
      in case anim_tick_disp s of
           None \<Rightarrow> None
         | Some s \<Rightarrow> Some (usleep DISP_PHASE_DELAY_US s))"

definition disp_step :: "machine \<Rightarrow> machine option" where
  "disp_step s = (case anim_tick_disp s of None \<Rightarrow> None | Some s \<Rightarrow> repeat 4 disp_phase_step s)"

definition run_one_dispense_cycle_with_anim :: "machine \<Rightarrow> machine option" where
  "run_one_dispense_cycle_with_anim s =
     (case repeat TOTAL_STEPS_PER_ITEM disp_step s of
        None \<Rightarrow> None
      | Some s \<Rightarrow> Some (motor_stop s))"

definition spin_phase_step :: "machine \<Rightarrow> machine option" where
  "spin_phase_step s =
     (let s = motor_write_phase (spin_phase s) s;
          s = s\<lparr>spin_phase := (spin_phase s + 1) AND 3\<rparr>
      in Some (usleep MOTOR_PHASE_DELAY_US s))"

definition motor_spin_one_cycle :: "machine \<Rightarrow> machine option" where
  "motor_spin_one_cycle s =
     (case repeat MOTOR_STEPS_PER_CYCLE (repeat 4 spin_phase_step) s of
        None \<Rightarrow> None
      | Some s \<Rightarrow> Some (motor_stop s))"

definition run_motor_test_cycles :: "int \<Rightarrow> machine \<Rightarrow> machine option" where
  "run_motor_test_cycles cycles s =
     (let cycles = (if cycles < 1 then 1 else cycles);
          cycles = (if cycles > 15 then 15 else cycles)
      in repeat (nat cycles)
           (\<lambda>s. case motor_spin_one_cycle s of None \<Rightarrow> None | Some s \<Rightarrow> Some (usleep 500000 s)) s)"

text \<open>
  The loop over the units of a dispense,
  \<^verbatim>\<open>for (i = 0; i < n; i++) { run_one_dispense_cycle_with_anim(); if (i != n - 1) usleep(150000); }\<close>,
  by the number of units still to deliver.
\<close>

fun dispense_units :: "nat \<Rightarrow> machine \<Rightarrow> machine option" where
  "dispense_units 0 s = Some s"
| "dispense_units (Suc r) s =
     (case run_one_dispense_cycle_with_anim s of
        None \<Rightarrow> None
      | Some s \<Rightarrow> dispense_units r (if r \<noteq> 0 then usleep 150000 s else s))"

text \<open>
  \<^verbatim>\<open>while (!gDispAnim.oneshot_done) { anim_tick(&gDispAnim); usleep(20000); }\<close>: the loop
  spins forever on a track that is neither done nor active, so the result is optional.
\<close>

partial_function (option) anim_wait_done :: "machine \<Rightarrow> machine option" where
  "anim_wait_done s =
     (if oneshot_done (gDispAnim s) then Some s
      else case anim_tick_disp s of
             None \<Rightarrow> None
           | Some s' \<Rightarrow> anim_wait_done (usleep 20000 s'))"

declare anim_wait_done.simps [code]

text \<open>The burst: all units, then the animation alone until it is complete.\<close>

definition dispense_burst :: "nat \<Rightarrow> machine \<Rightarrow> machine option" where
  "dispense_burst n s = (case dispense_units n s of None \<Rightarrow> None | Some s \<Rightarrow> anim_wait_done s)"

text \<open>The phases driven so far, oldest first.\<close>

fun motor_phases :: "event list \<Rightarrow> int list" where
  "motor_phases [] = []"
| "motor_phases (EvMotor p # es) = motor_phases es @ [p]"
| "motor_phases (e # es) = motor_phases es"

text \<open>
  \<^verbatim>\<open>while (ScanKey() != 0xFF) usleep(12000)\<close>, for a key that is seen down on \<open>hold\<close>
  further scans.
\<close>

fun wait_key_release :: "nat \<Rightarrow> machine \<Rightarrow> machine" where
  "wait_key_release 0 s = s"
| "wait_key_release (Suc hold) s = wait_key_release hold (usleep 12000 s)"


section \<open>One iteration of the poll loop of \<^verbatim>\<open>main\<close>\<close>

definition USLEEP_ERR_SHORT_US :: int where "USLEEP_ERR_SHORT_US = 700000"
definition USLEEP_ERR_LONG_US :: int where "USLEEP_ERR_LONG_US = 1200000"
definition USLEEP_SUCCESS_SCREEN_US :: int where "USLEEP_SUCCESS_SCREEN_US = 5000000"
definition USLEEP_SVC_DONE_US :: int where "USLEEP_SVC_DONE_US = 1200000"
definition USLEEP_OOS_SCREEN_US :: int where "USLEEP_OOS_SCREEN_US = 4500000"

text \<open>An error screen: the cue, the message and its fixed wait.\<close>

definition error_screen :: "int \<Rightarrow> machine \<Rightarrow> machine" where
  "error_screen wait_us s = usleep wait_us (lcd_print2 (beep_error s))"

subsection \<open>Door transitions\<close>

definition door_opening_done :: "machine \<Rightarrow> machine" where
  "door_opening_done s = service_menu_screen (s\<lparr>st := ST_SVC_MENU, selbuf := []\<rparr>)"

definition door_closing_done :: "machine \<Rightarrow> machine" where
  "door_closing_done s =
     (let s = set_port_mapping False (s\<lparr>service_mode := False\<rparr>);
          s = s\<lparr>st := ST_MENU, selbuf := [], amtbuf := [], chosen_slot := - 1,
                index_timer_active := False\<rparr>
      in timer_stop_and_blank (menu_screen s))"

definition door_transitions :: "machine \<Rightarrow> machine" where
  "door_transitions s =
     (let s = (if st s = ST_DOOR_OPENING \<and> oneshot_done (gDoorAnim s)
               then door_opening_done s else s)
      in if st s = ST_DOOR_CLOSING \<and> oneshot_done (gDoorAnim s)
         then door_closing_done s else s)"

subsection \<open>Gate timeouts and idle countdown\<close>

definition svc_gate_expired :: "int \<Rightarrow> machine \<Rightarrow> bool" where
  "svc_gate_expired t s =
     (st s = ST_SVC_GATE \<and> svc_gate_deadline s > 0 \<and> t \<ge> svc_gate_deadline s)"

definition return_gate_expired :: "int \<Rightarrow> machine \<Rightarrow> bool" where
  "return_gate_expired t s =
     (st s = ST_RETURN_GATE \<and> return_gate_deadline s > 0 \<and> t \<ge> return_gate_deadline s)"

definition svc_gate_timeout :: "machine \<Rightarrow> machine" where
  "svc_gate_timeout s =
     (let s = (beep_error s)\<lparr>svc_gate_deadline := 0\<rparr>;
          s = (set_port_mapping False s)\<lparr>service_mode := False, st := ST_MENU\<rparr>
      in menu_screen s)"

definition return_gate_timeout :: "machine \<Rightarrow> machine" where
  "return_gate_timeout s =
     (let s = (beep_error s)\<lparr>return_gate_deadline := 0, service_mode := True\<rparr>;
          s = (set_port_mapping True s)\<lparr>st := ST_SVC_MENU\<rparr>
      in service_menu_screen s)"

definition timer_active :: "machine \<Rightarrow> bool" where
  "timer_active s =
     (st s = ST_AMOUNT \<or> st s = ST_PAY \<or> (st s = ST_MENU \<and> index_timer_active s))"

definition idle_timeout :: "machine \<Rightarrow> machine" where
  "idle_timeout s =
     (let s = (beep_error s)\<lparr>st := ST_MENU, selbuf := [], amtbuf := [], chosen_slot := - 1,
                index_timer_active := False\<rparr>
      in menu_screen (timer_stop_and_blank s))"

subsection \<open>The dispensing state\<close>

definition dispensing :: "machine \<Rightarrow> machine option" where
  "dispensing s =
     (let s = (if \<not> active (gDispAnim s) \<and> \<not> oneshot_done (gDispAnim s)
               then s\<lparr>gDispAnim :=
                      anim_start (gDispAnim s) disp_frames DISP_N 1 DISP_FRAME_MS (now_ms s)\<rparr>
               else s)
      in case dispense_burst (nat (amount s)) s of
           None \<Rightarrow> None
         | Some s \<Rightarrow>
            (let s = usleep USLEEP_SUCCESS_SCREEN_US
                       (beep_success (lcd_print2 (show_image IMG_THANKS s)))
             in case item_at (items s) (chosen_slot s) of
                  None \<Rightarrow> None
                | Some it \<Rightarrow>
                   (let v = stock it - amount s;
                        v = (if v < 0 then 0 else v);
                        s = s\<lparr>items := set_stock (chosen_slot s) v (items s)\<rparr>;
                        s = s\<lparr>st := ST_MENU, chosen_slot := - 1, amount := 0,
                              pay_zero_count := 0, selbuf := [], amtbuf := [],
                              index_timer_active := False\<rparr>;
                        s = timer_stop_and_blank s;
                        s = s\<lparr>gDispAnim := (gDispAnim s)\<lparr>oneshot_done := False\<rparr>\<rparr>
                    in Some (menu_screen s))))"

subsection \<open>Gate confirmation\<close>

definition svc_gate_confirm :: "machine \<Rightarrow> machine" where
  "svc_gate_confirm s =
     (let s = service_blink_reset (s\<lparr>svc_gate_deadline := 0, service_mode := True\<rparr>);
          s = s\<lparr>st := ST_DOOR_OPENING\<rparr>;
          s = s\<lparr>gDoorAnim := (gDoorAnim s)\<lparr>oneshot_done := False\<rparr>\<rparr>
      in s\<lparr>gDoorAnim := anim_start (gDoorAnim s) door_frames DOOR_N 1 DOOR_FRAME_MS (now_ms s)\<rparr>)"

definition return_gate_confirm :: "machine \<Rightarrow> machine" where
  "return_gate_confirm s =
     (let s = s\<lparr>return_gate_deadline := 0, st := ST_DOOR_CLOSING\<rparr>;
          s = s\<lparr>gDoorAnim := (gDoorAnim s)\<lparr>oneshot_done := False\<rparr>\<rparr>
      in s\<lparr>gDoorAnim := anim_start (gDoorAnim s) door_frames DOOR_N (- 1) DOOR_FRAME_MS (now_ms s)\<rparr>)"

subsection \<open>BACK\<close>

definition key_back :: "machine \<Rightarrow> machine" where
  "key_back s =
     (if \<not> service_mode s then
        (if st s = ST_MENU then
           (let s = (if length (selbuf s) > 0 then s\<lparr>selbuf := butlast (selbuf s)\<rparr> else s);
                s = menu_screen s
            in if length (selbuf s) = 0
               then timer_stop_and_blank (s\<lparr>index_timer_active := False\<rparr>) else s)
         else
           (let s = s\<lparr>st := ST_MENU, chosen_slot := - 1, amtbuf := []\<rparr>;
                s = timer_stop_and_blank (menu_screen s)
            in s\<lparr>index_timer_active := False\<rparr>))
      else
        service_menu_screen
          (s\<lparr>st := ST_SVC_MENU, selbuf := [], svcbuf := [], svc_disp_slot := - 1,
             restock_slot := - 1\<rparr>))"

subsection \<open>Digits\<close>

definition pay_digit :: "char \<Rightarrow> machine \<Rightarrow> machine" where
  "pay_digit k s =
     (let s = (if k = CHR ''0'' then s\<lparr>pay_zero_count := pay_zero_count s + 1\<rparr>
               else s\<lparr>pay_zero_count := 0\<rparr>)
      in if pay_zero_count s \<ge> 2 then
           (let s = lcd_print2 (beep_payment_ok s);
                s = s\<lparr>gDispAnim := (gDispAnim s)\<lparr>oneshot_done := False\<rparr>\<rparr>;
                s = s\<lparr>gDispAnim := (gDispAnim s)\<lparr>active := False\<rparr>\<rparr>
            in s\<lparr>st := ST_DISPENSING\<rparr>)
         else lcd_print2 s)"

text \<open>The image shown while a digit is typed in a service sub-state.\<close>

definition svc_digit_screen :: "machine \<Rightarrow> machine" where
  "svc_digit_screen s =
     (if st s = ST_SVC_DISPENSE_IDX then lcd_print2 (show_image IMG_MENU_SERVICE s)
      else if st s = ST_SVC_DISPENSE_AMT then lcd_print2 (show_image IMG_MENU_SERVICE s)
      else if st s = ST_SVC_RESTOCK_IDX then lcd_print2 (show_image IMG_RESTOCK s)
      else if st s = ST_SVC_RESTOCK_QTY then lcd_print2 (show_image IMG_RESTOCK s)
      else if st s = ST_SVC_SOUND_SEL then lcd_print2 (show_image IMG_SOUND s)
      else if st s = ST_SVC_MOTOR_CYC then lcd_print2 (show_image IMG_MOTOR s)
      else s)"

definition key_digit :: "char \<Rightarrow> machine \<Rightarrow> machine option" where
  "key_digit k s =
     (if \<not> service_mode s then
        (if st s = ST_MENU then
           (let s = s\<lparr>selbuf := buf_push 4 k (selbuf s)\<rparr>;
                s = menu_screen s
            in if \<not> index_timer_active s \<and> length (selbuf s) > 0 then
                 (let s = timer_start_or_reset (s\<lparr>index_timer_active := True\<rparr>)
                  in Some (timer_update_display (now_ms s) s))
               else Some s)
         else if st s = ST_AMOUNT then
           (let s = s\<lparr>amtbuf := buf_push 3 k (amtbuf s)\<rparr>
            in case item_at (items s) (chosen_slot s) of
                 None \<Rightarrow> None
               | Some it \<Rightarrow> Some (lcd_print2 s))
         else if st s = ST_PAY then Some (pay_digit k s)
         else Some s)
      else
        (if st s = ST_SVC_MENU then
           Some (service_menu_screen (s\<lparr>selbuf := buf_push 4 k (selbuf s)\<rparr>))
         else Some (svc_digit_screen (s\<lparr>svcbuf := buf_push 4 k (svcbuf s)\<rparr>))))"

subsection \<open>ENTER in customer mode\<close>

definition enter_menu :: "machine \<Rightarrow> machine option" where
  "enter_menu s =
     (if length (selbuf s) = 0 then Some (menu_screen (error_screen USLEEP_ERR_SHORT_US s))
      else if selbuf s = ''1234'' then
        (let s = timer_stop_and_blank (s\<lparr>selbuf := [], index_timer_active := False\<rparr>);
             s = usleep 120000 (show_service_gate_prompt s);
             s = (set_port_mapping True s)\<lparr>st := ST_SVC_GATE\<rparr>
         in Some (s\<lparr>svc_gate_deadline := now_ms s + SVC_GATE_TIMEOUT_MS\<rparr>))
      else
        (let want = atoi (selbuf s);
             s = s\<lparr>chosen_slot := find_slot_by_index (items s) want\<rparr>;
             s = timer_stop_and_blank (s\<lparr>selbuf := [], index_timer_active := False\<rparr>)
         in if chosen_slot s < 0 then Some (menu_screen (error_screen USLEEP_ERR_LONG_US s))
            else case item_at (items s) (chosen_slot s) of
                   None \<Rightarrow> None
                 | Some it \<Rightarrow>
                    (let s = show_image (img it) s
                     in if stock it \<le> 0 then
                          (let s = usleep USLEEP_OOS_SCREEN_US
                                     (lcd_print2 (show_image (img_oos it) s))
                           in Some (menu_screen (s\<lparr>chosen_slot := - 1\<rparr>)))
                        else
                          (let s = timer_start_or_reset (s\<lparr>st := ST_AMOUNT, amtbuf := []\<rparr>);
                               s = timer_update_display (now_ms s) s
                           in Some (lcd_print2 s)))))"

definition enter_amount :: "machine \<Rightarrow> machine option" where
  "enter_amount s =
     (if length (amtbuf s) = 0 then Some (error_screen USLEEP_ERR_SHORT_US s)
      else
        (let s = s\<lparr>amount := atoi (amtbuf s)\<rparr>
         in if amount s < 1 \<or> amount s > MAX_COUNT then
              Some ((error_screen USLEEP_ERR_SHORT_US s)\<lparr>amtbuf := []\<rparr>)
            else case item_at (items s) (chosen_slot s) of
                   None \<Rightarrow> None
                 | Some it \<Rightarrow>
                     if amount s > stock it then
                       Some ((error_screen USLEEP_ERR_SHORT_US s)\<lparr>amtbuf := []\<rparr>)
                     else
                       (let s = (lcd_print2 s)\<lparr>st := ST_PAY, pay_zero_count := 0\<rparr>;
                            s = timer_start_or_reset s
                        in Some (timer_update_display (now_ms s) s))))"

subsection \<open>ENTER in service mode\<close>

definition enter_svc_menu :: "machine \<Rightarrow> machine" where
  "enter_svc_menu s =
     (if selbuf s = ''1234'' then
        (let s = usleep 120000 (show_return_gate_prompt (s\<lparr>selbuf := []\<rparr>));
             s = (set_port_mapping False s)\<lparr>st := ST_RETURN_GATE\<rparr>
         in s\<lparr>return_gate_deadline := now_ms s + RETURN_GATE_TIMEOUT_MS\<rparr>)
      else
        (let s =
           (if selbuf s = ''1'' then
              lcd_print2 (show_image IMG_MENU_SERVICE (s\<lparr>svcbuf := [], st := ST_SVC_DISPENSE_IDX\<rparr>))
            else if selbuf s = ''2'' then
              lcd_print2 (show_image IMG_RESTOCK (s\<lparr>svcbuf := [], st := ST_SVC_RESTOCK_IDX\<rparr>))
            else if selbuf s = ''3'' then
              lcd_print2 (show_image IMG_SOUND (s\<lparr>svcbuf := [], st := ST_SVC_SOUND_SEL\<rparr>))
            else if selbuf s = ''4'' then
              lcd_print2 (show_image IMG_MOTOR (s\<lparr>svcbuf := [], st := ST_SVC_MOTOR_CYC\<rparr>))
            else service_menu_screen (error_screen USLEEP_ERR_SHORT_US s))
         in s\<lparr>selbuf := []\<rparr>))"

definition enter_svc_dispense_idx :: "machine \<Rightarrow> machine option" where
  "enter_svc_dispense_idx s =
     (if length (svcbuf s) = 0 then Some (error_screen USLEEP_ERR_SHORT_US s)
      else
        (let want = atoi (svcbuf s);
             s = s\<lparr>svc_disp_slot := find_slot_by_index (items s) want\<rparr>
         in if svc_disp_slot s < 0 then
              Some (lcd_print2 (show_image IMG_MENU_SERVICE
                      ((error_screen USLEEP_ERR_SHORT_US s)\<lparr>svcbuf := []\<rparr>)))
            else case item_at (items s) (svc_disp_slot s) of
                   None \<Rightarrow> None
                 | Some it \<Rightarrow>
                     Some (lcd_print2 ((show_image (img it) s)
                             \<lparr>svcbuf := [], st := ST_SVC_DISPENSE_AMT\<rparr>))))"

definition enter_svc_dispense_amt :: "machine \<Rightarrow> machine option" where
  "enter_svc_dispense_amt s =
     (if length (svcbuf s) = 0 then Some (error_screen USLEEP_ERR_SHORT_US s)
      else
        (let a = atoi (svcbuf s)
         in if a < 1 \<or> a > 15 then
              Some (lcd_print2 (show_image IMG_MENU_SERVICE
                      ((error_screen USLEEP_ERR_SHORT_US s)\<lparr>svcbuf := []\<rparr>)))
            else
              (let s = lcd_print2 s;
                   s = s\<lparr>gDispAnim := (gDispAnim s)\<lparr>oneshot_done := False\<rparr>\<rparr>;
                   s = s\<lparr>gDispAnim := (gDispAnim s)\<lparr>active := False\<rparr>\<rparr>;
                   s = s\<lparr>gDispAnim :=
                         anim_start (gDispAnim s) disp_frames DISP_N 1 DISP_FRAME_MS (now_ms s)\<rparr>
               in case dispense_burst (nat a) s of
                    None \<Rightarrow> None
                  | Some s \<Rightarrow>
                     (let s = usleep USLEEP_SVC_DONE_US (lcd_print2 (beep_success s));
                          s = s\<lparr>st := ST_SVC_MENU, svcbuf := [], svc_disp_slot := - 1\<rparr>
                      in Some (service_menu_screen s)))))"

definition enter_svc_restock_idx :: "machine \<Rightarrow> machine option" where
  "enter_svc_restock_idx s =
     (if length (svcbuf s) = 0 then Some (error_screen USLEEP_ERR_SHORT_US s)
      else
        (let want = atoi (svcbuf s);
             s = s\<lparr>restock_slot := find_slot_by_index (items s) want\<rparr>
         in if restock_slot s < 0 then
              Some (lcd_print2 (show_image IMG_RESTOCK
                      ((error_screen USLEEP_ERR_SHORT_US s)\<lparr>svcbuf := []\<rparr>)))
            else case item_at (items s) (restock_slot s) of
                   None \<Rightarrow> None
                 | Some it \<Rightarrow>
                     Some (lcd_print2 ((show_image (img it) s)
                             \<lparr>svcbuf := [], st := ST_SVC_RESTOCK_QTY\<rparr>))))"

definition enter_svc_restock_qty :: "machine \<Rightarrow> machine option" where
  "enter_svc_restock_qty s =
     (if length (svcbuf s) = 0 then Some (error_screen USLEEP_ERR_SHORT_US s)
      else
        (let newstock = atoi (svcbuf s)
         in if newstock < 1 \<or> newstock > 15 then
              Some (lcd_print2 (show_image IMG_RESTOCK
                      ((error_screen USLEEP_ERR_SHORT_US s)\<lparr>svcbuf := []\<rparr>)))
            else case item_at (items s) (restock_slot s) of
                   None \<Rightarrow> None
                 | Some it \<Rightarrow>
                    (let s = s\<lparr>items := set_stock (restock_slot s) newstock (items s)\<rparr>;
                         s = usleep USLEEP_SVC_DONE_US (lcd_print2 (beep_success s));
                         s = s\<lparr>st := ST_SVC_MENU, restock_slot := - 1, svcbuf := []\<rparr>
                     in Some (service_menu_screen s))))"

definition play_sound :: "int \<Rightarrow> machine \<Rightarrow> machine" where
  "play_sound n s =
     (if n = 1 then beep_keypress s
      else if n = 2 then beep_error s
      else if n = 3 then beep_success s
      else if n = 4 then beep_payment_ok s
      else if n = 5 then beep_dispensing_slot 1 s
      else if n = 6 then beep_dispensing_slot 2 s
      else if n = 7 then beep_dispensing_slot 3 s
      else if n = 8 then beep_dispensing_slot 4 s
      else s)"

definition enter_svc_sound_sel :: "machine \<Rightarrow> machine" where
  "enter_svc_sound_sel s =
     (if length (svcbuf s) = 0 then error_screen USLEEP_ERR_SHORT_US s
      else
        (let n = atoi (svcbuf s)
         in if n < 1 \<or> n > 8 then
              lcd_print2 (show_image IMG_SOUND
                ((error_screen USLEEP_ERR_SHORT_US s)\<lparr>svcbuf := []\<rparr>))
            else
              (let s = play_sound n (usleep 1000000 (lcd_print2 s))
               in lcd_print2 (show_image IMG_SOUND (s\<lparr>svcbuf := []\<rparr>)))))"

definition enter_svc_motor_cyc :: "machine \<Rightarrow> machine option" where
  "enter_svc_motor_cyc s =
     (if length (svcbuf s) = 0 then Some (error_screen USLEEP_ERR_SHORT_US s)
      else
        (let cycles = atoi (svcbuf s)
         in if cycles < 1 \<or> cycles > 15 then
              Some (lcd_print2 (show_image IMG_MOTOR
                      ((error_screen USLEEP_ERR_SHORT_US s)\<lparr>svcbuf := []\<rparr>)))
            else case run_motor_test_cycles cycles (lcd_print2 s) of
                   None \<Rightarrow> None
                 | Some s \<Rightarrow>
                     Some (lcd_print2 (show_image IMG_MOTOR ((beep_success s)\<lparr>svcbuf := []\<rparr>)))))"

text \<open>ENTER: a state that no branch handles falls through to the final \<^verbatim>\<open>beep_error()\<close>.\<close>

definition key_enter :: "machine \<Rightarrow> machine option" where
  "key_enter s =
     (if \<not> service_mode s then
        (if st s = ST_MENU then enter_menu s
         else if st s = ST_AMOUNT then enter_amount s
         else Some (beep_error s))
      else
        (if st s = ST_SVC_MENU then Some (enter_svc_menu s)
         else if st s = ST_SVC_DISPENSE_IDX then enter_svc_dispense_idx s
         else if st s = ST_SVC_DISPENSE_AMT then enter_svc_dispense_amt s
         else if st s = ST_SVC_RESTOCK_IDX then enter_svc_restock_idx s
         else if st s = ST_SVC_RESTOCK_QTY then enter_svc_restock_qty s
         else if st s = ST_SVC_SOUND_SEL then Some (enter_svc_sound_sel s)
         else if st s = ST_SVC_MOTOR_CYC then enter_svc_motor_cyc s
         else Some (beep_error s)))"

subsection \<open>The iteration\<close>

text \<open>The dispatch of an accepted key, after the key beep and the wait for its release.\<close>

definition dispatch :: "char \<Rightarrow> machine \<Rightarrow> machine option" where
  "dispatch k s =
     (if st s = ST_SVC_GATE then Some (svc_gate_confirm s)
      else if st s = ST_RETURN_GATE then Some (return_gate_confirm s)
      else if k = KEY_BACK then Some (key_back s)
      else if isdigit k then key_digit k s
      else if k = KEY_ENTER then key_enter s
      else Some (beep_error s))"

definition scan_and_dispatch :: "char \<Rightarrow> nat \<Rightarrow> machine \<Rightarrow> machine option" where
  "scan_and_dispatch k hold s =
     (if k = NO_KEY then Some (usleep 20000 s)
      else dispatch k (wait_key_release hold (beep_keypress s)))"

text \<open>What follows the timers in a pass: the dispensing state, else the keypad.\<close>

definition after_timers :: "char \<Rightarrow> nat \<Rightarrow> machine \<Rightarrow> machine option" where
  "after_timers k hold s =
     (if st s = ST_DISPENSING then dispensing s else scan_and_dispatch k hold s)"

text \<open>
  One pass through the body of \<^verbatim>\<open>while (1)\<close>: \<open>step\<close> reads the clock and ticks
  both tracks, \<open>pass_body\<close> is the rest of the body: the door transitions, then the gate
  timeouts, the indicator with the idle countdown, the dispensing state and the keypad.
  The inputs are the result \<open>k\<close> of
  \<^verbatim>\<open>ScanKey()\<close> in this pass and the number \<open>hold\<close> of later scans that still see the
  key down. Each \<^verbatim>\<open>continue\<close> of the source ends the pass. The result is \<open>None\<close> when
  the pass does not return (the loop that waits for the dispensing animation) or reads an
  array outside its bounds.
\<close>

definition timers_and_keys :: "int \<Rightarrow> char \<Rightarrow> nat \<Rightarrow> machine \<Rightarrow> machine option" where
  "timers_and_keys t k hold s =
     (if svc_gate_expired t s then Some (svc_gate_timeout s)
      else if return_gate_expired t s then Some (return_gate_timeout s)
      else if service_mode s then after_timers k hold (service_blink_tick t s)
      else if timer_active s then
        (let s = timer_update_display t s
         in if timer_seconds_left (idle_deadline s) t = 0 then Some (idle_timeout s)
            else after_timers k hold s)
      else after_timers k hold s)"

definition pass_body :: "int \<Rightarrow> char \<Rightarrow> nat \<Rightarrow> machine \<Rightarrow> machine option" where
  "pass_body t k hold s = timers_and_keys t k hold (door_transitions s)"

definition step :: "char \<Rightarrow> nat \<Rightarrow> machine \<Rightarrow> machine option" where
  "step k hold s =
     (let t = now_ms s
      in case anim_tick_door s of
           None \<Rightarrow> None
         | Some s \<Rightarrow>
            (case anim_tick_disp s of
               None \<Rightarrow> None
             | Some s \<Rightarrow> pass_body t k hold s))"

text \<open>A sequence of passes, each with its keypad input.\<close>

fun run :: "(char \<times> nat) list \<Rightarrow> machine \<Rightarrow> machine option" where
  "run [] s = Some s"
| "run ((k, hold) # ks) s = (case step k hold s of None \<Rightarrow> None | Some s' \<Rightarrow> run ks s')"

text \<open>The machine when the loop is entered, for a clock reading and a set of image files.\<close>

definition zero_anim :: anim where
  "zero_anim = \<lparr>active = False, frames = [], nframes = 0, idx = 0, direction = 0,
                 next_ms = 0, frame_ms = 0, oneshot_done = False\<rparr>"

definition power_on :: "int \<Rightarrow> string list \<Rightarrow> machine" where
  "power_on c fs =
     \<lparr>clock = c, files = fs, out = [],
      gLedPort = LEDPORT_NORMAL, gLcdPort = LCDPORT_NORMAL,
      gSmPort = SMPORT_NORMAL, gKbdPort = KBDPORT_NORMAL,
      pqiv_count = 0, gDoorAnim = zero_anim, gDispAnim = zero_anim,
      idle_deadline = 0, last_shown = - 1, svc_blink_next = 0, svc_blink_on = True,
      phase = 0, spin_phase = 0, items = catalog, st = ST_MENU,
      selbuf = [], amtbuf = [], svcbuf = [],
      chosen_slot = - 1, amount = 0, pay_zero_count = 0,
      index_timer_active = False, service_mode = False,
      svc_gate_deadline = 0, return_gate_deadline = 0,
      svc_disp_slot = - 1, restock_slot = - 1\<rparr>"

definition init :: "int \<Rightarrow> string list \<Rightarrow> machine" where
  "init c fs = timer_stop_and_blank (menu_screen (power_on c fs))"

inductive reachable :: "machine \<Rightarrow> bool" where
  reach_init: "0 \<le> c \<Longrightarrow> reachable (init c fs)"
| reach_step: "reachable s \<Longrightarrow> step k hold s = Some s' \<Longrightarrow> reachable s'"


section \<open>Properties as predicates, and concrete inputs\<close>

text \<open>
  The remaining time of a countdown fits the \<^verbatim>\<open>int\<close> of the cast in
  \<^verbatim>\<open>timer_seconds_left\<close>: the reading \<open>t\<close> is less than \<open>2^31\<close> seconds before the
  deadline. Every reading taken since \<^verbatim>\<open>timer_start_or_reset\<close> is at most \<open>IDLE_MS\<close>
  before it.
\<close>

definition fits_int :: "int \<Rightarrow> int \<Rightarrow> bool" where
  "fits_int deadline t = ((deadline - t + 999) div 1000 \<le> 2147483647)"

text \<open>
  The countdown deadline of the machine is never negative and lies at most \<open>IDLE_MS\<close> after
  the clock reading: \<^verbatim>\<open>timer_start_or_reset\<close> sets it to \<^verbatim>\<open>now_ms() + IDLE_MS\<close>,
  \<^verbatim>\<open>timer_stop_and_blank\<close> to 0, and the clock only moves forward.
\<close>

definition timer_ok :: "machine \<Rightarrow> bool" where
  "timer_ok s = (0 \<le> clock s \<and> 0 \<le> idle_deadline s \<and> idle_deadline s \<le> now_ms s + IDLE_MS)"

text \<open>A due tick moves the index one step in the direction of the track.\<close>

definition advances_one_step :: "string list \<Rightarrow> int \<Rightarrow> anim \<Rightarrow> bool" where
  "advances_one_step fs t a =
     (case anim_tick_core fs t a of
        None \<Rightarrow> False
      | Some (a', sh) \<Rightarrow> idx a' = idx a + direction a)"

text \<open>The door track, opened at clock reading 0 and ticked at 0, 800 and 1600 ms.\<close>

definition door_at_last_frame :: anim where
  "door_at_last_frame =
     \<lparr>active = True, frames = door_frames, nframes = 4, idx = 3, direction = 1,
      next_ms = 2400, frame_ms = 800, oneshot_done = False\<rparr>"


text \<open>States of the customer flow; in the others the machine is in service mode.\<close>

definition customer_state :: "st \<Rightarrow> bool" where
  "customer_state x = (x \<in> {ST_MENU, ST_AMOUNT, ST_PAY, ST_SVC_GATE, ST_DISPENSING})"

definition valid_slot :: "item list \<Rightarrow> int \<Rightarrow> bool" where
  "valid_slot its i = (0 \<le> i \<and> i < int (length its))"

definition stocks_ok :: "item list \<Rightarrow> bool" where
  "stocks_ok its = list_all (\<lambda>it. 0 \<le> stock it \<and> stock it \<le> MAX_COUNT) its"

definition normal_ports :: "8 word \<times> 8 word \<times> 8 word \<times> 8 word" where
  "normal_ports = (LEDPORT_NORMAL, LCDPORT_NORMAL, SMPORT_NORMAL, KBDPORT_NORMAL)"

definition admin_ports :: "8 word \<times> 8 word \<times> 8 word \<times> 8 word" where
  "admin_ports = (LEDPORT_ADMIN, LCDPORT_ADMIN, SMPORT_ADMIN, KBDPORT_ADMIN)"

text \<open>
  What holds of the machine between two passes of the loop: both tracks are well formed;
  every stock is in \<open>[0, 15]\<close>; the slot and the amount of a purchase in progress are
  valid; the slot being restocked is valid; the dispensing track is disarmed when the
  dispensing state is entered; the mode is SERVICE exactly outside the customer states;
  the normal port mapping is in place while the machine leaves service mode.
\<close>

definition inv :: "machine \<Rightarrow> bool" where
  "inv s =
     (wf_anim (gDoorAnim s) \<and> wf_anim (gDispAnim s)
      \<and> stocks_ok (items s)
      \<and> (st s \<in> {ST_AMOUNT, ST_PAY, ST_DISPENSING} \<longrightarrow> valid_slot (items s) (chosen_slot s))
      \<and> (st s \<in> {ST_PAY, ST_DISPENSING} \<longrightarrow> 1 \<le> amount s \<and> amount s \<le> MAX_COUNT)
      \<and> (st s = ST_SVC_RESTOCK_QTY \<longrightarrow> valid_slot (items s) (restock_slot s))
      \<and> (st s = ST_DISPENSING \<longrightarrow> \<not> active (gDispAnim s) \<and> \<not> oneshot_done (gDispAnim s))
      \<and> (service_mode s \<longleftrightarrow> \<not> customer_state (st s))
      \<and> (st s \<in> {ST_RETURN_GATE, ST_DOOR_CLOSING} \<longrightarrow> port_mapping s = normal_ports))"


text \<open>
  While the loop consults the idle countdown its deadline is set, and the index countdown
  of MENU is flagged in MENU only.
\<close>

definition countdown_live :: "machine \<Rightarrow> bool" where
  "countdown_live s =
     ((timer_active s \<longrightarrow> 0 < idle_deadline s) \<and> (index_timer_active s \<longrightarrow> st s = ST_MENU))"

text \<open>
  The amount of a purchase that has passed \<^verbatim>\<open>ENTER\<close> in AMOUNT does not exceed the stock
  of the chosen item.
\<close>

definition amount_ok :: "machine \<Rightarrow> bool" where
  "amount_ok s =
     (st s \<in> {ST_PAY, ST_DISPENSING} \<longrightarrow> amount s \<le> stock (items s ! nat (chosen_slot s)))"

text \<open>
  ENTER confirms a new stock in SVC-RESTOCK-QTY: the buffer holds a number from 1 to 15.
\<close>

definition restock_confirmed :: "char \<Rightarrow> machine \<Rightarrow> bool" where
  "restock_confirmed k s =
     (st s = ST_SVC_RESTOCK_QTY \<and> k = KEY_ENTER \<and> svcbuf s \<noteq> []
      \<and> 1 \<le> atoi (svcbuf s) \<and> atoi (svcbuf s) \<le> 15)"

text \<open>
  The catalog after a pass that starts in \<open>s\<close> with key \<open>k\<close>: a pass in DISPENSING takes the
  amount from the stock of the chosen item and raises a negative result to 0, a confirmed
  restock stores the new stock, every other pass leaves the catalog as it is.
\<close>

definition stock_after :: "char \<Rightarrow> machine \<Rightarrow> item list" where
  "stock_after k s =
     (if st s = ST_DISPENSING then
        set_stock (chosen_slot s)
          (max 0 (stock (items s ! nat (chosen_slot s)) - amount s)) (items s)
      else if restock_confirmed k s then
        set_stock (restock_slot s) (atoi (svcbuf s)) (items s)
      else items s)"


text \<open>The idle countdown is being shown and has reached zero at the start of a pass.\<close>

definition idle_expired :: "machine \<Rightarrow> bool" where
  "idle_expired s =
     (\<not> service_mode s \<and> timer_active s
      \<and> timer_seconds_left (idle_deadline s) (now_ms s) = 0)"


text \<open>The events a pass from \<open>s\<close> to \<open>s'\<close> has added to the trace, newest first.\<close>

definition emitted :: "machine \<Rightarrow> machine \<Rightarrow> event list" where
  "emitted s s' = take (length (out s') - length (out s)) (out s')"


text \<open>The dispensing track is well formed and either armed or complete.\<close>

definition disp_live :: "machine \<Rightarrow> bool" where
  "disp_live s =
     (wf_anim (gDispAnim s) \<and> (armed (gDispAnim s) \<or> oneshot_done (gDispAnim s)))"

text \<open>
  What a stretch of the dispensing burst with \<open>m\<close> motor phase writes does to the machine:
  the phases driven continue the rotation from the stored phase, the stored phase follows,
  the track stays live, and apart from clock, trace and viewer count nothing else changes.
\<close>

definition burst_rel :: "nat \<Rightarrow> machine \<Rightarrow> machine \<Rightarrow> bool" where
  "burst_rel m s s' =
     (\<exists>c ev n a.
        s' = s\<lparr>clock := c, out := ev @ out s, pqiv_count := n, gDispAnim := a,
               phase := (if m = 0 then phase s else (phase s + int m) mod 4)\<rparr>
        \<and> motor_phases ev = map (\<lambda>i. (phase s + int i) mod 4) [0..<m]
        \<and> clock s \<le> c \<and> disp_live s')"


text \<open>
  Concrete machines, from the machine that enters the loop at clock 0 with no image file
  present: waiting in SERVICE-GATE past its deadline; waiting in RETURN-GATE past its
  deadline; in AMOUNT for the first item when the idle countdown has run out.
\<close>

definition svc_gate_late :: machine where
  "svc_gate_late =
     (set_port_mapping True (init 0 []))
       \<lparr>st := ST_SVC_GATE, svc_gate_deadline := 9354, clock := 9400000\<rparr>"

definition return_gate_late :: machine where
  "return_gate_late =
     (init 0 [])\<lparr>st := ST_RETURN_GATE, service_mode := True, return_gate_deadline := 8000,
                 clock := 8000000\<rparr>"

definition amount_idle_late :: machine where
  "amount_idle_late =
     (init 0 [])\<lparr>st := ST_AMOUNT, chosen_slot := 0, idle_deadline := 9000, clock := 9000000\<rparr>"


text \<open>
  \<open>ui_rel s s'\<close>: from \<open>s\<close> to \<open>s'\<close> only the clock, the trace (by events that do not drive
  the motor), the viewer count, the two tracks and the indicator bookkeeping have changed;
  the tracks are well formed and a disarmed track is untouched.
\<close>

definition ui_rel :: "machine \<Rightarrow> machine \<Rightarrow> bool" where
  "ui_rel s s' =
     (\<exists>c ev n a1 a2 l bn bo.
        s' = s\<lparr>clock := c, out := ev @ out s, pqiv_count := n, gDoorAnim := a1, gDispAnim := a2,
               last_shown := l, svc_blink_next := bn, svc_blink_on := bo\<rparr>
        \<and> motor_phases ev = [] \<and> clock s \<le> c \<and> wf_anim a1 \<and> wf_anim a2
        \<and> (\<not> armed (gDispAnim s) \<longrightarrow> a2 = gDispAnim s)
        \<and> (\<not> armed (gDoorAnim s) \<longrightarrow> a1 = gDoorAnim s))"

text \<open>The door track is complete once this pass has ticked it.\<close>

definition door_completes :: "machine \<Rightarrow> bool" where
  "door_completes s =
     (case anim_tick_door s of None \<Rightarrow> False | Some s1 \<Rightarrow> oneshot_done (gDoorAnim s1))"

text \<open>
  Where the mode and the port mapping may change in the part of a pass that follows the door
  transitions, started in \<open>x\<close> at clock reading \<open>t\<close> with key \<open>k\<close> and ended in \<open>x'\<close>: the mode
  only when a key confirms SERVICE-GATE; the port mapping only when ENTER confirms the
  reserved code in MENU or SVC-MENU, or when a gate has timed out.
\<close>

definition changes_ok :: "int \<Rightarrow> char \<Rightarrow> machine \<Rightarrow> machine \<Rightarrow> bool" where
  "changes_ok t k x x' =
     ((service_mode x' \<noteq> service_mode x \<longrightarrow>
         st x = ST_SVC_GATE \<and> k \<noteq> NO_KEY \<and> \<not> svc_gate_expired t x
         \<and> service_mode x' \<and> st x' = ST_DOOR_OPENING)
      \<and> (port_mapping x' \<noteq> port_mapping x \<longrightarrow>
         (st x = ST_MENU \<and> k = KEY_ENTER \<and> selbuf x = ''1234'' \<and> st x' = ST_SVC_GATE)
         \<or> (st x = ST_SVC_MENU \<and> k = KEY_ENTER \<and> selbuf x = ''1234'' \<and> st x' = ST_RETURN_GATE)
         \<or> svc_gate_expired t x \<or> return_gate_expired t x))"


text \<open>What the motor test changes: the clock, the trace and its own stored phase.\<close>

definition spin_rel :: "machine \<Rightarrow> machine \<Rightarrow> bool" where
  "spin_rel s s' = (\<exists>c ev p. s' = s\<lparr>clock := c, out := ev @ out s, spin_phase := p\<rparr>)"


text \<open>A sequence of keys, each released before the next scan.\<close>

definition keys :: "string \<Rightarrow> (char \<times> nat) list" where
  "keys ks = map (\<lambda>c. (c, 0)) ks"



text \<open>
  More concrete machines, one second after power-on: in PAY for one unit of the first item,
  countdown running; in AMOUNT for the first item (stock 1) with the quantity 2 typed; in
  SERVICE mode, about to confirm the new stock 5 for the second item (index 8).
\<close>

definition pay_ready :: machine where
  "pay_ready =
     (init 0 [])\<lparr>st := ST_PAY, chosen_slot := 0, amount := 1, idle_deadline := 9000,
                 clock := 1000000\<rparr>"

definition amount_typed :: machine where
  "amount_typed =
     (init 0 [])\<lparr>st := ST_AMOUNT, chosen_slot := 0, amtbuf := ''2'', idle_deadline := 9000,
                 clock := 1000000\<rparr>"


text \<open>
  A machine in DISPENSING for three units of the first item, whose stock is 1: the amount
  exceeds the stock, which ENTER in AMOUNT never lets through.
\<close>

definition dispense_short :: machine where
  "dispense_short = (init 0 [])\<lparr>st := ST_DISPENSING, chosen_slot := 0, amount := 3\<rparr>"


section \<open>Countdown\<close>

lemma to_int32_id: "- 2147483648 \<le> x \<Longrightarrow> x \<le> 2147483647 \<Longrightarrow> to_int32 x = x"
  unfolding to_int32_def
  by (simp add: sint_sbintrunc' signed_take_bit_int_eq_self_iff)

lemma tsl_exact:
  assumes "0 < d" "fits_int d t"
  shows "timer_seconds_left d t = max 0 (min 9 ((d - t + 999) div 1000))"
proof (cases "d - t \<le> 0")
  case True
  then have "(d - t + 999) div 1000 \<le> 0" by simp
  with True assms show ?thesis by (simp add: timer_seconds_left_def)
next
  case False
  then have lo: "0 \<le> (d - t + 999) div 1000" by simp
  have hi: "(d - t + 999) div 1000 \<le> 2147483647" using assms(2) by (simp add: fits_int_def)
  have "to_int32 ((d - t + 999) div 1000) = (d - t + 999) div 1000"
    using lo hi by (intro to_int32_id) simp_all
  with False assms lo show ?thesis by (simp add: timer_seconds_left_def Let_def)
qed

lemma tsl_range: "0 < d \<Longrightarrow> 0 \<le> timer_seconds_left d t \<and> timer_seconds_left d t \<le> 9"
  by (simp add: timer_seconds_left_def Let_def)

lemma tsl_zero_iff: "timer_seconds_left d t = 0 \<Longrightarrow> 0 < d"
  by (simp add: timer_seconds_left_def split: if_splits)

lemma tsl_zero: "0 < d \<Longrightarrow> d \<le> t \<Longrightarrow> timer_seconds_left d t = 0"
  by (simp add: timer_seconds_left_def Let_def)

lemma fits_int_later: "fits_int d t1 \<Longrightarrow> t1 \<le> t2 \<Longrightarrow> fits_int d t2"
proof -
  assume a: "fits_int d t1" "t1 \<le> t2"
  have "(d - t2 + 999) div 1000 \<le> (d - t1 + 999) div 1000"
    using a(2) by (intro zdiv_mono1) simp_all
  with a(1) show ?thesis by (simp add: fits_int_def)
qed

lemma tsl_mono:
  assumes "0 < d" "fits_int d t1" "t1 \<le> t2"
  shows "timer_seconds_left d t2 \<le> timer_seconds_left d t1"
proof -
  have a: "fits_int d t2" using assms fits_int_later by blast
  have "(d - t2 + 999) div 1000 \<le> (d - t1 + 999) div 1000"
    using assms(3) by (intro zdiv_mono1) simp_all
  then show ?thesis
    unfolding tsl_exact[OF assms(1) a] tsl_exact[OF assms(1,2)] by simp
qed

lemma tsl_stopped: "d \<le> 0 \<Longrightarrow> timer_seconds_left d t = - 1"
  by (simp add: timer_seconds_left_def)

lemma tsl_mono_all:
  assumes "fits_int d t1" "t1 \<le> t2"
  shows "timer_seconds_left d t2 \<le> timer_seconds_left d t1"
proof (cases "0 < d")
  case True
  from tsl_mono[OF True assms] show ?thesis .
next
  case False
  then show ?thesis by (simp add: tsl_stopped)
qed

section \<open>Animation tracks\<close>

lemma tick_early: "armed a \<Longrightarrow> t < next_ms a \<Longrightarrow> anim_tick_core fs t a = Some (a, None)"
  by (simp add: anim_tick_core_def armed_def)

lemma tick_idle: "\<not> armed a \<Longrightarrow> anim_tick_core fs t a = Some (a, None)"
  by (auto simp add: anim_tick_core_def armed_def)

lemma tick_due:
  assumes "armed a" "wf_anim a" "next_ms a \<le> t"
  shows "\<exists>a'. anim_tick_core fs t a = Some (a', Some (shown_as fs (frames a ! nat (idx a))))
      \<and> next_ms a' = t + frame_ms a \<and> frames a' = frames a \<and> nframes a' = nframes a
      \<and> direction a' = direction a \<and> frame_ms a' = frame_ms a
      \<and> (if terminal a then idx a' = idx a \<and> oneshot_done a' \<and> \<not> active a'
          else idx a' = idx a + direction a \<and> \<not> oneshot_done a' \<and> active a')"
  using assms
  by (auto simp add: anim_tick_core_def armed_def wf_anim_def terminal_def shown_as_def Let_def)

lemma pending_fwd:
  assumes "armed a" "wf_anim a" "direction a > 0"
  shows "pending a = frames a ! nat (idx a) # drop (nat (idx a + 1)) (frames a)"
proof -
  have "0 \<le> idx a \<and> idx a < int (length (frames a))" using assms by (simp add: wf_anim_def armed_def)
  then have "nat (idx a) < length (frames a)" by linarith
  then have "drop (nat (idx a)) (frames a) = frames a ! nat (idx a) # drop (Suc (nat (idx a))) (frames a)"
    by (simp add: Cons_nth_drop_Suc)
  moreover have "Suc (nat (idx a)) = nat (idx a + 1)" using assms by (simp add: wf_anim_def armed_def nat_add_distrib)
  ultimately show ?thesis using assms by (simp add: pending_def)
qed

lemma pending_bwd:
  assumes "armed a" "wf_anim a" "\<not> direction a > 0"
  shows "pending a = frames a ! nat (idx a) # rev (take (nat (idx a)) (frames a))"
proof -
  have "0 \<le> idx a \<and> idx a < int (length (frames a))" using assms by (simp add: wf_anim_def armed_def)
  then have "nat (idx a) < length (frames a)" by linarith
  then have "take (nat (idx a) + 1) (frames a) = take (nat (idx a)) (frames a) @ [frames a ! nat (idx a)]"
    by (simp add: take_Suc_conv_app_nth)
  then show ?thesis using assms by (simp add: pending_def)
qed

lemma pending_due:
  assumes "armed a" "wf_anim a" "next_ms a \<le> t"
  shows "\<exists>a'. anim_tick_core fs t a = Some (a', Some (shown_as fs (frames a ! nat (idx a))))
       \<and> pending a = frames a ! nat (idx a) # pending a' \<and> wf_anim a'
       \<and> (oneshot_done a' \<longleftrightarrow> pending a' = []) \<and> (oneshot_done a' \<or> armed a')"
proof (cases "direction a > 0")
  case True
  have r: "0 \<le> idx a" "idx a < int (length (frames a))" "nframes a = int (length (frames a))"
    using assms by (simp_all add: wf_anim_def armed_def)
  show ?thesis
  proof (cases "idx a = nframes a - 1")
    case t: True
    then have "drop (nat (idx a + 1)) (frames a) = []" using r by simp
    then show ?thesis using assms True t r pending_fwd[OF assms(1,2) True]
      by (simp add: anim_tick_core_def armed_def pending_def wf_anim_def shown_as_def Let_def)
  next
    case f: False
    then have "nat (idx a + 1) < length (frames a)" using r by linarith
    then show ?thesis using assms True f r pending_fwd[OF assms(1,2) True]
      by (simp add: anim_tick_core_def armed_def pending_def wf_anim_def shown_as_def Let_def)
  qed
next
  case False
  have r: "0 \<le> idx a" "idx a < int (length (frames a))" "nframes a = int (length (frames a))"
    using assms by (simp_all add: wf_anim_def armed_def)
  have d: "direction a = - 1" using assms False by (auto simp add: wf_anim_def armed_def)
  show ?thesis
  proof (cases "idx a = 0")
    case t: True
    then show ?thesis using assms False r d pending_bwd[OF assms(1,2) False]
      by (simp add: anim_tick_core_def armed_def pending_def wf_anim_def shown_as_def Let_def)
  next
    case f: False
    then have "Suc (nat (idx a - 1)) = nat (idx a)" "nat (idx a - 1) < length (frames a)"
      using r by linarith+
    moreover have "frames a \<noteq> []" using r by auto
    ultimately show ?thesis using assms False f r d pending_bwd[OF assms(1,2) False]
      by (simp add: anim_tick_core_def armed_def pending_def wf_anim_def shown_as_def Let_def)
  qed
qed

lemma anim_run_pending:
  assumes "wf_anim a" "oneshot_done a \<or> armed a"
  shows "\<exists>a' shown. anim_run fs ts a = Some (a', shown)
      \<and> map (shown_as fs) (pending a) = shown @ map (shown_as fs) (pending a')
      \<and> (oneshot_done a' \<longleftrightarrow> pending a' = []) \<and> wf_anim a' \<and> (oneshot_done a' \<or> armed a')"
  using assms
proof (induction ts arbitrary: a)
  case Nil
  then show ?case
    by (auto simp: pending_def armed_def wf_anim_def)
next
  case (Cons t ts)
  show ?case
  proof (cases "armed a \<and> next_ms a \<le> t")
    case True
    from pending_due[of a t fs] True Cons.prems obtain a1 where
      a1: "anim_tick_core fs t a = Some (a1, Some (shown_as fs (frames a ! nat (idx a))))"
       "pending a = frames a ! nat (idx a) # pending a1" "wf_anim a1" "oneshot_done a1 \<or> armed a1"
      by blast
    from Cons.IH[OF a1(3,4)] obtain a' shown where
      "anim_run fs ts a1 = Some (a', shown)"
      "map (shown_as fs) (pending a1) = shown @ map (shown_as fs) (pending a')"
      "(oneshot_done a' \<longleftrightarrow> pending a' = [])" "wf_anim a'" "(oneshot_done a' \<or> armed a')"
      by blast
    then show ?thesis using a1 by simp
  next
    case False
    then have "anim_tick_core fs t a = Some (a, None)"
      using tick_early[of a t fs] tick_idle[of a fs t] by force
    then show ?thesis using Cons.IH[OF Cons.prems] by force
  qed
qed

lemma pending_start:
  "fr \<noteq> [] \<Longrightarrow> pending (anim_start a fr (int (length fr)) dir fms now) = travel dir fr"
  by (simp add: pending_def anim_start_def armed_def travel_def Let_def nat_diff_distrib Suc_leI)

lemma wf_start: "fr \<noteq> [] \<Longrightarrow> wf_anim (anim_start a fr (int (length fr)) dir fms now)"
  by (simp add: wf_anim_def anim_start_def armed_def Let_def)

lemma armed_start: "armed (anim_start a fr n dir fms now)"
  by (simp add: anim_start_def armed_def Let_def)

lemma anim_run_from_start:
  assumes "fr \<noteq> []"
  shows "\<exists>a' shown. anim_run fs ts (anim_start a fr (int (length fr)) dir fms now) = Some (a', shown)
      \<and> prefix shown (map (shown_as fs) (travel dir fr))
      \<and> (oneshot_done a' \<longleftrightarrow> shown = map (shown_as fs) (travel dir fr))"
proof -
  let ?a0 = "anim_start a fr (int (length fr)) dir fms now"
  from anim_run_pending[OF wf_start[OF assms], of a dir fms now fs ts] armed_start
  obtain a' shown where r: "anim_run fs ts ?a0 = Some (a', shown)"
      "map (shown_as fs) (pending ?a0) = shown @ map (shown_as fs) (pending a')"
      "(oneshot_done a' \<longleftrightarrow> pending a' = [])"
    by blast
  from r(2) have e: "map (shown_as fs) (travel dir fr) = shown @ map (shown_as fs) (pending a')"
    by (simp add: pending_start[OF assms])
  then have "prefix shown (map (shown_as fs) (travel dir fr))" by (simp add: prefix_def)
  moreover have "oneshot_done a' \<longleftrightarrow> shown = map (shown_as fs) (travel dir fr)"
    using e r(3) by auto
  ultimately show ?thesis using r(1) by blast
qed

text \<open>
  C4, as amended. For an armed track (well formed, as \<^verbatim>\<open>anim_start\<close> leaves it):
  a tick before the due time changes nothing and shows nothing; a tick at or after the due
  time shows the current frame (or the menu image when its file is missing) and schedules
  the next one \<open>frame_ms\<close> later; if that frame is not the terminal one the index moves by
  exactly one step in the direction and the track stays armed; if it is the terminal one
  the index stays and the track is marked complete and inactive. A complete track ignores
  every tick. Over any sequence of ticks after \<^verbatim>\<open>anim_start\<close> the frames shown are a
  prefix of the frames in travel order, and the completion flag is set exactly when all of
  them, the terminal one last, have been shown.
\<close>

theorem anim_tick_one_frame_per_due_tick:
  "(armed a \<and> t < next_ms a \<longrightarrow> anim_tick_core fs t a = Some (a, None))
 \<and> (armed a \<and> wf_anim a \<and> next_ms a \<le> t \<longrightarrow>
     (\<exists>a'. anim_tick_core fs t a = Some (a', Some (shown_as fs (frames a ! nat (idx a))))
        \<and> next_ms a' = t + frame_ms a
        \<and> (if terminal a then idx a' = idx a \<and> oneshot_done a' \<and> \<not> active a'
            else idx a' = idx a + direction a \<and> \<not> oneshot_done a' \<and> active a')))
 \<and> (oneshot_done a \<longrightarrow> anim_tick_core fs t a = Some (a, None))
 \<and> (fr \<noteq> [] \<longrightarrow>
     (\<exists>a' shown. anim_run fs ts (anim_start a0 fr (int (length fr)) dir fms now) = Some (a', shown)
        \<and> prefix shown (map (shown_as fs) (travel dir fr))
        \<and> (oneshot_done a' \<longleftrightarrow> shown = map (shown_as fs) (travel dir fr))))"
proof (intro conjI impI)
  show "anim_tick_core fs t a = Some (a, None)" if "armed a \<and> t < next_ms a"
    using that tick_early by blast
  show "\<exists>a'. anim_tick_core fs t a = Some (a', Some (shown_as fs (frames a ! nat (idx a))))
        \<and> next_ms a' = t + frame_ms a
        \<and> (if terminal a then idx a' = idx a \<and> oneshot_done a' \<and> \<not> active a'
            else idx a' = idx a + direction a \<and> \<not> oneshot_done a' \<and> active a')"
    if "armed a \<and> wf_anim a \<and> next_ms a \<le> t"
    using that tick_due[of a t fs] by blast
  show "anim_tick_core fs t a = Some (a, None)" if "oneshot_done a"
    using that by (simp add: anim_tick_core_def)
  show "\<exists>a' shown. anim_run fs ts (anim_start a0 fr (int (length fr)) dir fms now) = Some (a', shown)
        \<and> prefix shown (map (shown_as fs) (travel dir fr))
        \<and> (oneshot_done a' \<longleftrightarrow> shown = map (shown_as fs) (travel dir fr))" if "fr \<noteq> []"
    using that anim_run_from_start by blast
qed

theorem anim_tick_one_frame_per_due_tick_witness:
  "armed door_at_last_frame \<and> wf_anim door_at_last_frame \<and> terminal door_at_last_frame
   \<and> next_ms door_at_last_frame \<le> 2400 \<and> 2399 < next_ms door_at_last_frame
   \<and> anim_tick_core [] 2399 door_at_last_frame = Some (door_at_last_frame, None)
   \<and> (\<exists>a'. anim_tick_core [] 2400 door_at_last_frame = Some (a', Some IMG_MENU)
         \<and> idx a' = 3 \<and> oneshot_done a')
   \<and> door_frames \<noteq> []
   \<and> (\<exists>a' shown. anim_run [] [0, 800, 1600, 2400]
          (anim_start zero_anim door_frames (int (length door_frames)) 1 800 0) = Some (a', shown)
         \<and> oneshot_done a')"
proof -
  have h: "armed door_at_last_frame" "wf_anim door_at_last_frame" "terminal door_at_last_frame"
    "next_ms door_at_last_frame \<le> 2400" "2399 < next_ms door_at_last_frame" "door_frames \<noteq> []"
    by (simp_all add: door_at_last_frame_def armed_def wf_anim_def terminal_def door_frames_def)
  have s: "shown_as [] (frames door_at_last_frame ! nat (idx door_at_last_frame)) = IMG_MENU"
    by (simp add: shown_as_def file_exists_def)
  have i: "idx door_at_last_frame = 3" by (simp add: door_at_last_frame_def)
  have e: "anim_run [] [0, 800, 1600, 2400]
          (anim_start zero_anim door_frames (int (length door_frames)) 1 800 0)
         = Some (door_at_last_frame\<lparr>oneshot_done := True, active := False, next_ms := 3200\<rparr>,
                 [IMG_MENU, IMG_MENU, IMG_MENU, IMG_MENU])"
    by (simp add: anim_start_def zero_anim_def door_frames_def door_at_last_frame_def
        anim_tick_core_def file_exists_def Let_def)
  from anim_tick_one_frame_per_due_tick[where a = door_at_last_frame and t = 2399 and fs = "[]"
         and fr = door_frames and ts = "[0, 800, 1600, 2400]" and ?a0.0 = zero_anim and dir = 1
         and fms = 800 and now = 0]
       anim_tick_one_frame_per_due_tick[where a = door_at_last_frame and t = 2400 and fs = "[]"
         and fr = door_frames and ts = "[0, 800, 1600, 2400]" and ?a0.0 = zero_anim and dir = 1
         and fms = 800 and now = 0]
       h s i e
  show ?thesis by auto
qed

text \<open>
  C4 as stated fails at the terminal frame: the door track at its last frame (index 3,
  direction +1), ticked at its due time, keeps the index 3 instead of moving one step.
\<close>

theorem anim_tick_terminal_counterexample:
  "armed door_at_last_frame \<and> next_ms door_at_last_frame \<le> 2400
   \<and> anim_run [] [0, 800, 1600] (anim_start zero_anim door_frames DOOR_N 1 DOOR_FRAME_MS 0)
       = Some (door_at_last_frame, [IMG_MENU, IMG_MENU, IMG_MENU])
   \<and> map_option (idx \<circ> fst) (anim_tick_core [] 2400 door_at_last_frame) = Some 3
   \<and> \<not> advances_one_step [] 2400 door_at_last_frame"
  by (simp add: door_at_last_frame_def armed_def anim_tick_core_def door_frames_def Let_def
      advances_one_step_def anim_start_def zero_anim_def DOOR_N_def DOOR_FRAME_MS_def
      file_exists_def)


section \<open>The drivers as record updates\<close>

named_theorems ops

lemma show_image_eq [ops]:
  "show_image p s =
     s\<lparr>clock := clock s + (if pqiv_count s \<ge> PQIV_KEEP then 60000 else 0) + 25000,
       out := EvImage p # out s,
       pqiv_count := (if pqiv_count s < PQIV_KEEP then pqiv_count s + 1 else pqiv_count s)\<rparr>"
  by (simp add: show_image_def usleep_def emit_def Let_def)

lemma seg_show_digit_eq [ops]:
  "seg_show_digit d s = s\<lparr>out := EvSeg (if d < 0 \<or> d > 9 then None else Some d) # out s\<rparr>"
  by (simp add: seg_show_digit_def seg_blank_def emit_def)

lemma timer_update_display_eq:
  "timer_update_display t s =
     s\<lparr>out := (if 0 \<le> timer_seconds_left (idle_deadline s) t
                 \<and> timer_seconds_left (idle_deadline s) t \<noteq> last_shown s
              then EvSeg (if timer_seconds_left (idle_deadline s) t > 9 then None
                          else Some (timer_seconds_left (idle_deadline s) t)) # out s
              else out s),
       last_shown := (if 0 \<le> timer_seconds_left (idle_deadline s) t
                 \<and> timer_seconds_left (idle_deadline s) t \<noteq> last_shown s
              then timer_seconds_left (idle_deadline s) t else last_shown s)\<rparr>"
  by (auto simp add: timer_update_display_def seg_show_digit_eq Let_def)

lemma service_blink_tick_eq:
  "service_blink_tick t s =
     s\<lparr>out := (if svc_blink_next s = 0 then EvSeg (Some 0) # out s
               else if t \<ge> svc_blink_next s
               then EvSeg (if svc_blink_on s then None else Some 0) # out s
               else out s),
       svc_blink_next := (if svc_blink_next s = 0 then t + 500
               else if t \<ge> svc_blink_next s then svc_blink_next s + 500 else svc_blink_next s),
       svc_blink_on := (if svc_blink_next s = 0 then True
               else if t \<ge> svc_blink_next s then \<not> svc_blink_on s else svc_blink_on s)\<rparr>"
  by (auto simp add: service_blink_tick_def seg_show_digit_eq seg_blank_def emit_def Let_def)

lemma timer_update_display_fields [simp]:
    "clock (timer_update_display t s) = clock s"
    "files (timer_update_display t s) = files s"
    "gLedPort (timer_update_display t s) = gLedPort s"
    "gLcdPort (timer_update_display t s) = gLcdPort s"
    "gSmPort (timer_update_display t s) = gSmPort s"
    "gKbdPort (timer_update_display t s) = gKbdPort s"
    "pqiv_count (timer_update_display t s) = pqiv_count s"
    "gDoorAnim (timer_update_display t s) = gDoorAnim s"
    "gDispAnim (timer_update_display t s) = gDispAnim s"
    "idle_deadline (timer_update_display t s) = idle_deadline s"
    "svc_blink_next (timer_update_display t s) = svc_blink_next s"
    "svc_blink_on (timer_update_display t s) = svc_blink_on s"
    "phase (timer_update_display t s) = phase s"
    "spin_phase (timer_update_display t s) = spin_phase s"
    "items (timer_update_display t s) = items s"
    "st (timer_update_display t s) = st s"
    "selbuf (timer_update_display t s) = selbuf s"
    "amtbuf (timer_update_display t s) = amtbuf s"
    "svcbuf (timer_update_display t s) = svcbuf s"
    "chosen_slot (timer_update_display t s) = chosen_slot s"
    "amount (timer_update_display t s) = amount s"
    "pay_zero_count (timer_update_display t s) = pay_zero_count s"
    "index_timer_active (timer_update_display t s) = index_timer_active s"
    "service_mode (timer_update_display t s) = service_mode s"
    "svc_gate_deadline (timer_update_display t s) = svc_gate_deadline s"
    "return_gate_deadline (timer_update_display t s) = return_gate_deadline s"
    "svc_disp_slot (timer_update_display t s) = svc_disp_slot s"
    "restock_slot (timer_update_display t s) = restock_slot s"
  by (simp_all add: timer_update_display_eq)

lemma service_blink_tick_fields [simp]:
    "clock (service_blink_tick t s) = clock s"
    "files (service_blink_tick t s) = files s"
    "gLedPort (service_blink_tick t s) = gLedPort s"
    "gLcdPort (service_blink_tick t s) = gLcdPort s"
    "gSmPort (service_blink_tick t s) = gSmPort s"
    "gKbdPort (service_blink_tick t s) = gKbdPort s"
    "pqiv_count (service_blink_tick t s) = pqiv_count s"
    "gDoorAnim (service_blink_tick t s) = gDoorAnim s"
    "gDispAnim (service_blink_tick t s) = gDispAnim s"
    "idle_deadline (service_blink_tick t s) = idle_deadline s"
    "last_shown (service_blink_tick t s) = last_shown s"
    "phase (service_blink_tick t s) = phase s"
    "spin_phase (service_blink_tick t s) = spin_phase s"
    "items (service_blink_tick t s) = items s"
    "st (service_blink_tick t s) = st s"
    "selbuf (service_blink_tick t s) = selbuf s"
    "amtbuf (service_blink_tick t s) = amtbuf s"
    "svcbuf (service_blink_tick t s) = svcbuf s"
    "chosen_slot (service_blink_tick t s) = chosen_slot s"
    "amount (service_blink_tick t s) = amount s"
    "pay_zero_count (service_blink_tick t s) = pay_zero_count s"
    "index_timer_active (service_blink_tick t s) = index_timer_active s"
    "service_mode (service_blink_tick t s) = service_mode s"
    "svc_gate_deadline (service_blink_tick t s) = svc_gate_deadline s"
    "return_gate_deadline (service_blink_tick t s) = return_gate_deadline s"
    "svc_disp_slot (service_blink_tick t s) = svc_disp_slot s"
    "restock_slot (service_blink_tick t s) = restock_slot s"
  by (simp_all add: service_blink_tick_eq)

lemma timer_update_display_out:
  "\<exists>ev. out (timer_update_display t s) = ev @ out s \<and> motor_phases ev = []"
proof (cases "0 \<le> timer_seconds_left (idle_deadline s) t
                 \<and> timer_seconds_left (idle_deadline s) t \<noteq> last_shown s")
  case True
  then have "out (timer_update_display t s)
      = [EvSeg (if timer_seconds_left (idle_deadline s) t > 9 then None
                else Some (timer_seconds_left (idle_deadline s) t))] @ out s"
    by (simp add: timer_update_display_eq)
  then show ?thesis by (metis motor_phases.simps(1,5))
next
  case False
  then have "out (timer_update_display t s) = [] @ out s"
    by (simp add: timer_update_display_eq)
  then show ?thesis by (metis motor_phases.simps(1))
qed

lemma service_blink_tick_out:
  "\<exists>ev. out (service_blink_tick t s) = ev @ out s \<and> motor_phases ev = []"
proof -
  consider "svc_blink_next s = 0" | "svc_blink_next s \<noteq> 0" "t \<ge> svc_blink_next s"
    | "svc_blink_next s \<noteq> 0" "\<not> t \<ge> svc_blink_next s" by blast
  then show ?thesis
  proof cases
    case 1
    then have "out (service_blink_tick t s) = [EvSeg (Some 0)] @ out s"
      by (simp add: service_blink_tick_eq)
    then show ?thesis by (metis motor_phases.simps(1,5))
  next
    case 2
    then have "out (service_blink_tick t s) = [EvSeg (if svc_blink_on s then None else Some 0)] @ out s"
      by (simp add: service_blink_tick_eq)
    then show ?thesis by (metis motor_phases.simps(1,5))
  next
    case 3
    then have "out (service_blink_tick t s) = [] @ out s"
      by (simp add: service_blink_tick_eq)
    then show ?thesis by (metis motor_phases.simps(1))
  qed
qed

lemmas [ops] = usleep_def emit_def seg_blank_def lcd_print2_def beep_square_def
  beep_keypress_def beep_error_def beep_success_def beep_payment_ok_def beep_dispensing_slot_def
  timer_start_or_reset_def timer_stop_and_blank_def service_blink_reset_def
  service_menu_screen_def show_service_gate_prompt_def show_return_gate_prompt_def
  menu_screen_def set_port_mapping_def error_screen_def now_ms_def

lemma wait_key_release_eq [ops]: "wait_key_release hold s = s\<lparr>clock := clock s + 12000 * int hold\<rparr>"
  by (induction hold arbitrary: s) (simp_all add: usleep_def algebra_simps)

lemma beep_wait_ge: "c \<le> beep_wait e hp c"
proof (induction e hp c rule: beep_wait.induct)
  case (1 e hp c)
  show ?case
  proof (cases "c div 1000 < e \<and> 0 < hp")
    case True
    with 1 have "c + 2 * hp \<le> beep_wait e hp (c + 2 * hp)" by blast
    moreover have "beep_wait e hp c = beep_wait e hp (c + 2 * hp)"
      using True by (subst beep_wait.simps) simp
    ultimately show ?thesis using True by linarith
  next
    case False
    then show ?thesis by (subst beep_wait.simps) auto
  qed
qed


section \<open>The ticks at the top of a pass\<close>

lemma motor_phases_append: "motor_phases (xs @ ys) = motor_phases ys @ motor_phases xs"
  by (induction xs rule: motor_phases.induct) simp_all

lemma emitted_append: "out s' = new @ out s \<Longrightarrow> emitted s s' = new"
  by (simp add: emitted_def)

lemma anim_tick_door_shape:
  assumes "wf_anim (gDoorAnim s)"
  shows "\<exists>c ev n a. anim_tick_door s = Some (s\<lparr>clock := c, out := ev @ out s, pqiv_count := n, gDoorAnim := a\<rparr>)
     \<and> wf_anim a \<and> clock s \<le> c \<and> motor_phases ev = []
     \<and> (\<not> armed (gDoorAnim s) \<longrightarrow> a = gDoorAnim s)"
proof (cases "armed (gDoorAnim s) \<and> next_ms (gDoorAnim s) \<le> now_ms s")
  case True
  from pending_due[of "gDoorAnim s" "now_ms s" "files s"] True assms obtain a' p where
    "anim_tick_core (files s) (now_ms s) (gDoorAnim s) = Some (a', Some p)" "wf_anim a'"
    by blast
  then have "anim_tick_door s = Some (s\<lparr>clock := clock s + (if pqiv_count s \<ge> PQIV_KEEP then 60000 else 0) + 25000,
       out := [EvImage p] @ out s,
       pqiv_count := (if pqiv_count s < PQIV_KEEP then pqiv_count s + 1 else pqiv_count s),
       gDoorAnim := a'\<rparr>)" "wf_anim a'"
    by (simp_all add: anim_tick_door_def show_opt_def show_image_eq)
  moreover have "clock s \<le> clock s + (if pqiv_count s \<ge> PQIV_KEEP then 60000 else 0) + 25000" by simp
  moreover have "motor_phases [EvImage p] = []" by simp
  ultimately show ?thesis using True by blast
next
  case False
  then have "anim_tick_core (files s) (now_ms s) (gDoorAnim s) = Some (gDoorAnim s, None)"
    using tick_early[of "gDoorAnim s" "now_ms s" "files s"] tick_idle[of "gDoorAnim s" "files s" "now_ms s"]
    by force
  then have "anim_tick_door s = Some (s\<lparr>clock := clock s, out := [] @ out s, pqiv_count := pqiv_count s, gDoorAnim := gDoorAnim s\<rparr>)"
    by (simp add: anim_tick_door_def show_opt_def)
  moreover have "clock s \<le> clock s" "motor_phases [] = []" by simp_all
  ultimately show ?thesis using assms by blast
qed

lemma anim_tick_disp_shape:
  assumes "wf_anim (gDispAnim s)"
  shows "\<exists>c ev n a. anim_tick_disp s = Some (s\<lparr>clock := c, out := ev @ out s, pqiv_count := n, gDispAnim := a\<rparr>)
     \<and> wf_anim a \<and> clock s \<le> c \<and> motor_phases ev = []
     \<and> (\<not> armed (gDispAnim s) \<longrightarrow> a = gDispAnim s)"
proof (cases "armed (gDispAnim s) \<and> next_ms (gDispAnim s) \<le> now_ms s")
  case True
  from pending_due[of "gDispAnim s" "now_ms s" "files s"] True assms obtain a' p where
    "anim_tick_core (files s) (now_ms s) (gDispAnim s) = Some (a', Some p)" "wf_anim a'"
    by blast
  then have "anim_tick_disp s = Some (s\<lparr>clock := clock s + (if pqiv_count s \<ge> PQIV_KEEP then 60000 else 0) + 25000,
       out := [EvImage p] @ out s,
       pqiv_count := (if pqiv_count s < PQIV_KEEP then pqiv_count s + 1 else pqiv_count s),
       gDispAnim := a'\<rparr>)" "wf_anim a'"
    by (simp_all add: anim_tick_disp_def show_opt_def show_image_eq)
  moreover have "clock s \<le> clock s + (if pqiv_count s \<ge> PQIV_KEEP then 60000 else 0) + 25000" by simp
  moreover have "motor_phases [EvImage p] = []" by simp
  ultimately show ?thesis using True by blast
next
  case False
  then have "anim_tick_core (files s) (now_ms s) (gDispAnim s) = Some (gDispAnim s, None)"
    using tick_early[of "gDispAnim s" "now_ms s" "files s"] tick_idle[of "gDispAnim s" "files s" "now_ms s"]
    by force
  then have "anim_tick_disp s = Some (s\<lparr>clock := clock s, out := [] @ out s, pqiv_count := pqiv_count s, gDispAnim := gDispAnim s\<rparr>)"
    by (simp add: anim_tick_disp_def show_opt_def)
  moreover have "clock s \<le> clock s" "motor_phases [] = []" by simp_all
  ultimately show ?thesis using assms by blast
qed

text \<open>Both ticks at the top of a pass.\<close>

lemma step_ticks:
  assumes "wf_anim (gDoorAnim s)" "wf_anim (gDispAnim s)"
  shows "\<exists>c ev n a1 a2. (\<forall>k hold. step k hold s = pass_body (now_ms s) k hold
               (s\<lparr>clock := c, out := ev @ out s, pqiv_count := n, gDoorAnim := a1, gDispAnim := a2\<rparr>))
     \<and> motor_phases ev = []
     \<and> wf_anim a1 \<and> wf_anim a2 \<and> clock s \<le> c
     \<and> (\<not> armed (gDispAnim s) \<longrightarrow> a2 = gDispAnim s)
     \<and> (\<not> armed (gDoorAnim s) \<longrightarrow> a1 = gDoorAnim s)
     \<and> door_completes s = oneshot_done a1"
proof -
  from anim_tick_door_shape[OF assms(1)] obtain c1 e1 n1 a1 where
    s1: "anim_tick_door s = Some (s\<lparr>clock := c1, out := e1 @ out s, pqiv_count := n1, gDoorAnim := a1\<rparr>)"
     "wf_anim a1" "clock s \<le> c1" "\<not> armed (gDoorAnim s) \<longrightarrow> a1 = gDoorAnim s"
     "motor_phases e1 = []" by blast
  let ?s1 = "s\<lparr>clock := c1, out := e1 @ out s, pqiv_count := n1, gDoorAnim := a1\<rparr>"
  have "wf_anim (gDispAnim ?s1)" using assms by simp
  from anim_tick_disp_shape[OF this] obtain c2 e2 n2 a2 where
    s2: "anim_tick_disp ?s1 = Some (?s1\<lparr>clock := c2, out := e2 @ out ?s1, pqiv_count := n2, gDispAnim := a2\<rparr>)"
     "wf_anim a2" "clock ?s1 \<le> c2" "\<not> armed (gDispAnim ?s1) \<longrightarrow> a2 = gDispAnim ?s1"
     "motor_phases e2 = []" by blast
  have e: "?s1\<lparr>clock := c2, out := e2 @ out ?s1, pqiv_count := n2, gDispAnim := a2\<rparr>
         = s\<lparr>clock := c2, out := (e2 @ e1) @ out s, pqiv_count := n2, gDoorAnim := a1, gDispAnim := a2\<rparr>"
    by (cases s) simp
  have 1: "\<forall>k hold. step k hold s = pass_body (now_ms s) k hold
               (s\<lparr>clock := c2, out := (e2 @ e1) @ out s, pqiv_count := n2, gDoorAnim := a1, gDispAnim := a2\<rparr>)"
    using s1(1) s2(1) unfolding e by (simp add: step_def)
  have 2: "clock s \<le> c2" using s1(3) s2(3) by simp
  have 3: "\<not> armed (gDispAnim s) \<longrightarrow> a2 = gDispAnim s" using s2(4) by simp
  have 4: "motor_phases (e2 @ e1) = []" using s1(5) s2(5) by (simp add: motor_phases_append)
  have 5: "door_completes s = oneshot_done a1" using s1(1) by (simp add: door_completes_def)
  show ?thesis
    apply (rule exI[of _ c2], rule exI[of _ "e2 @ e1"], rule exI[of _ n2], rule exI[of _ a1], rule exI[of _ a2])
    using 1 2 3 4 5 s1(2,4) s2(2) by (intro conjI) assumption+
qed


section \<open>Timer-driven transitions\<close>

lemma door_transitions_id:
  "st s \<noteq> ST_DOOR_OPENING \<Longrightarrow> st s \<noteq> ST_DOOR_CLOSING \<Longrightarrow> door_transitions s = s"
  by (simp add: door_transitions_def)

lemma timers_and_keys_eq:
  "timers_and_keys t k hold s =
    (if svc_gate_expired t s then Some (svc_gate_timeout s)
     else if return_gate_expired t s then Some (return_gate_timeout s)
     else if service_mode s then after_timers k hold (service_blink_tick t s)
     else if timer_active s then
       (if timer_seconds_left (idle_deadline s) t = 0
        then Some (idle_timeout (timer_update_display t s))
        else after_timers k hold (timer_update_display t s))
     else after_timers k hold s)"
  unfolding timers_and_keys_def Let_def by simp

lemma pass_body_no_door:
  assumes "st s \<noteq> ST_DOOR_OPENING" "st s \<noteq> ST_DOOR_CLOSING"
  shows "pass_body t k hold s = timers_and_keys t k hold s"
  unfolding pass_body_def door_transitions_id[OF assms] by simp

lemma timer_active_st: "timer_active s \<Longrightarrow> st s = ST_MENU \<or> st s = ST_AMOUNT \<or> st s = ST_PAY"
  by (auto simp: timer_active_def)

lemma timer_active_upd [simp]:
  "timer_active (s\<lparr>clock := c, out := e, pqiv_count := n, gDoorAnim := a1, gDispAnim := a2\<rparr>) = timer_active s"
  by (simp add: timer_active_def)

lemma svc_gate_timeout_step:
  assumes "inv s" "svc_gate_expired (now_ms s) s"
  shows "\<exists>s'. (\<forall>k hold. step k hold s = Some s') \<and> st s' = ST_MENU \<and> \<not> service_mode s'
     \<and> service_mode s' = service_mode s \<and> port_mapping s' = normal_ports \<and> items s' = items s
     \<and> error_cue \<in> set (emitted s s')"
proof -
  have wf: "wf_anim (gDoorAnim s)" "wf_anim (gDispAnim s)" using assms(1) by (simp_all add: inv_def)
  from step_ticks[OF wf] obtain c ev n a1 a2 where
    1: "\<And>k hold. step k hold s = pass_body (now_ms s) k hold
               (s\<lparr>clock := c, out := ev @ out s, pqiv_count := n, gDoorAnim := a1, gDispAnim := a2\<rparr>)"
    by blast
  let ?s2 = "s\<lparr>clock := c, out := ev @ out s, pqiv_count := n, gDoorAnim := a1, gDispAnim := a2\<rparr>"
  have st: "st ?s2 \<noteq> ST_DOOR_OPENING" "st ?s2 \<noteq> ST_DOOR_CLOSING"
    using assms(2) by (simp_all add: svc_gate_expired_def)
  have 2: "pass_body (now_ms s) k hold ?s2 = Some (svc_gate_timeout ?s2)" for k hold
    unfolding pass_body_no_door[OF st] timers_and_keys_eq using assms
    by (simp add: svc_gate_expired_def)
  have 3: "out (svc_gate_timeout ?s2) = ([EvLcd, EvImage IMG_MENU, error_cue] @ ev) @ out s"
    by (simp add: svc_gate_timeout_def Let_def ops error_cue_def)
  show ?thesis
    apply (rule exI[of _ "svc_gate_timeout ?s2"])
    apply (simp add: 1 2 emitted_append[OF 3])
    using assms
    by (simp add: svc_gate_timeout_def Let_def ops inv_def svc_gate_expired_def customer_state_def port_mapping_def normal_ports_def)
qed

lemma return_gate_timeout_step:
  assumes "inv s" "return_gate_expired (now_ms s) s"
  shows "\<exists>s'. (\<forall>k hold. step k hold s = Some s') \<and> st s' = ST_SVC_MENU \<and> service_mode s'
     \<and> service_mode s' = service_mode s \<and> port_mapping s' = admin_ports \<and> items s' = items s
     \<and> error_cue \<in> set (emitted s s')"
proof -
  have wf: "wf_anim (gDoorAnim s)" "wf_anim (gDispAnim s)" using assms(1) by (simp_all add: inv_def)
  from step_ticks[OF wf] obtain c ev n a1 a2 where
    1: "\<And>k hold. step k hold s = pass_body (now_ms s) k hold
               (s\<lparr>clock := c, out := ev @ out s, pqiv_count := n, gDoorAnim := a1, gDispAnim := a2\<rparr>)"
    by blast
  let ?s2 = "s\<lparr>clock := c, out := ev @ out s, pqiv_count := n, gDoorAnim := a1, gDispAnim := a2\<rparr>"
  have st: "st ?s2 \<noteq> ST_DOOR_OPENING" "st ?s2 \<noteq> ST_DOOR_CLOSING"
    using assms(2) by (simp_all add: return_gate_expired_def)
  have 2: "pass_body (now_ms s) k hold ?s2 = Some (return_gate_timeout ?s2)" for k hold
    unfolding pass_body_no_door[OF st] timers_and_keys_eq using assms
    by (simp add: svc_gate_expired_def return_gate_expired_def)
  have 3: "out (return_gate_timeout ?s2) = ([EvLcd, EvImage IMG_SERVICE_MANUAL, error_cue] @ ev) @ out s"
    by (simp add: return_gate_timeout_def Let_def ops error_cue_def)
  show ?thesis
    apply (rule exI[of _ "return_gate_timeout ?s2"])
    apply (simp add: 1 2 emitted_append[OF 3])
    using assms
    by (simp add: return_gate_timeout_def Let_def ops inv_def return_gate_expired_def customer_state_def port_mapping_def admin_ports_def)
qed

lemma idle_timeout_step:
  assumes "inv s" "idle_expired s"
  shows "\<exists>s'. (\<forall>k hold. step k hold s = Some s') \<and> st s' = ST_MENU \<and> \<not> service_mode s'
     \<and> selbuf s' = [] \<and> amtbuf s' = [] \<and> items s' = items s \<and> port_mapping s' = port_mapping s
     \<and> error_cue \<in> set (emitted s s')"
proof -
  have wf: "wf_anim (gDoorAnim s)" "wf_anim (gDispAnim s)" using assms(1) by (simp_all add: inv_def)
  from step_ticks[OF wf] obtain c ev n a1 a2 where
    1: "\<And>k hold. step k hold s = pass_body (now_ms s) k hold
               (s\<lparr>clock := c, out := ev @ out s, pqiv_count := n, gDoorAnim := a1, gDispAnim := a2\<rparr>)"
    by blast
  let ?s2 = "s\<lparr>clock := c, out := ev @ out s, pqiv_count := n, gDoorAnim := a1, gDispAnim := a2\<rparr>"
  let ?s3 = "timer_update_display (now_ms s) ?s2"
  have ta: "timer_active s" "\<not> service_mode s" "timer_seconds_left (idle_deadline s) (now_ms s) = 0"
    using assms(2) by (simp_all add: idle_expired_def)
  have st: "st ?s2 \<noteq> ST_DOOR_OPENING" "st ?s2 \<noteq> ST_DOOR_CLOSING" "st ?s2 \<noteq> ST_SVC_GATE" "st ?s2 \<noteq> ST_RETURN_GATE"
    using timer_active_st[OF ta(1)] by auto
  have 2: "pass_body (now_ms s) k hold ?s2 = Some (idle_timeout ?s3)" for k hold
    unfolding pass_body_no_door[OF st(1,2)] timers_and_keys_eq using ta st(3,4)
    by (simp add: svc_gate_expired_def return_gate_expired_def)
  from timer_update_display_out[of "now_ms s" ?s2] obtain ev2 where
    "out ?s3 = ev2 @ out ?s2" by blast
  then have 3: "out (idle_timeout ?s3) = ([EvLcd, EvImage IMG_MENU, EvSeg None, error_cue] @ ev2 @ ev) @ out s"
    by (simp add: idle_timeout_def Let_def ops error_cue_def)
  show ?thesis
    apply (rule exI[of _ "idle_timeout ?s3"])
    apply (simp add: 1 2 emitted_append[OF 3])
    using ta
    by (simp add: idle_timeout_def Let_def ops port_mapping_def)
qed

text \<open>
  C3. When the deadline of SERVICE-GATE has passed at the start of a pass, the pass ends in
  MENU with the mode NORMAL, which is the mode the gate was entered in; when the deadline of
  RETURN-GATE has passed, the pass ends in SVC-MENU with the mode SERVICE. This holds for
  every keypad input of the pass, the absence of a key included.
\<close>

theorem gate_timeouts_asymmetric:
  assumes "inv s"
  shows "(svc_gate_expired (now_ms s) s \<longrightarrow>
            (\<exists>s'. (\<forall>k hold. step k hold s = Some s') \<and> st s' = ST_MENU
                \<and> \<not> service_mode s' \<and> service_mode s' = service_mode s))
       \<and> (return_gate_expired (now_ms s) s \<longrightarrow>
            (\<exists>s'. (\<forall>k hold. step k hold s = Some s') \<and> st s' = ST_SVC_MENU
                \<and> service_mode s'))"
  using svc_gate_timeout_step[OF assms] return_gate_timeout_step[OF assms] by blast

text \<open>
  C9. When a gate deadline has passed or the idle countdown shown in the current state has
  reached zero at the start of a pass, the pass takes the forced reset (to SVC-MENU from
  RETURN-GATE, to MENU otherwise, with the error cue) and its result is the same for every
  keypad input: a key that is down in that pass is not dispatched.
\<close>

theorem expired_timer_preempts_keypress:
  assumes "inv s"
    and "svc_gate_expired (now_ms s) s \<or> return_gate_expired (now_ms s) s \<or> idle_expired s"
  shows "\<exists>s'. (\<forall>k hold. step k hold s = Some s')
           \<and> st s' = (if st s = ST_RETURN_GATE then ST_SVC_MENU else ST_MENU)
           \<and> error_cue \<in> set (emitted s s')"
proof -
  consider "svc_gate_expired (now_ms s) s" | "return_gate_expired (now_ms s) s" | "idle_expired s"
    using assms(2) by blast
  then show ?thesis
  proof cases
    case 1
    then have "st s \<noteq> ST_RETURN_GATE" by (simp add: svc_gate_expired_def)
    with svc_gate_timeout_step[OF assms(1) 1] show ?thesis by auto
  next
    case 2
    then have "st s = ST_RETURN_GATE" by (simp add: return_gate_expired_def)
    with return_gate_timeout_step[OF assms(1) 2] show ?thesis by auto
  next
    case 3
    then have "st s \<noteq> ST_RETURN_GATE" using timer_active_st[of s] by (auto simp add: idle_expired_def)
    with idle_timeout_step[OF assms(1) 3] show ?thesis by auto
  qed
qed


section \<open>The dispensing burst\<close>

lemma and3_mod4: "(x::int) AND 3 = x mod 4"
  using take_bit_eq_mask[of 2 x] by (simp add: mask_eq_exp_minus_1 take_bit_eq_mod)

lemma burst_rel_refl: "disp_live s \<Longrightarrow> burst_rel 0 s s"
  unfolding burst_rel_def
  apply (rule exI[of _ "clock s"], rule exI[of _ "[]"], rule exI[of _ "pqiv_count s"], rule exI[of _ "gDispAnim s"])
  by simp

lemma burst_rel_live: "burst_rel m s s' \<Longrightarrow> disp_live s'"
  by (auto simp: burst_rel_def)

lemma burst_rel_trans:
  assumes "burst_rel m s s1" "burst_rel m' s1 s2"
  shows "burst_rel (m + m') s s2"
proof -
  from assms(1) obtain c ev n a where 1:
    "s1 = s\<lparr>clock := c, out := ev @ out s, pqiv_count := n, gDispAnim := a,
               phase := (if m = 0 then phase s else (phase s + int m) mod 4)\<rparr>"
    "motor_phases ev = map (\<lambda>i. (phase s + int i) mod 4) [0..<m]" "clock s \<le> c"
    unfolding burst_rel_def by blast
  from assms(2) obtain c' ev' n' a' where 2:
    "s2 = s1\<lparr>clock := c', out := ev' @ out s1, pqiv_count := n', gDispAnim := a',
               phase := (if m' = 0 then phase s1 else (phase s1 + int m') mod 4)\<rparr>"
    "motor_phases ev' = map (\<lambda>i. (phase s1 + int i) mod 4) [0..<m']" "clock s1 \<le> c'" "disp_live s2"
    unfolding burst_rel_def by blast
  have p1: "phase s1 = (if m = 0 then phase s else (phase s + int m) mod 4)" by (subst 1(1)) simp
  have ph: "(if m' = 0 then phase s1 else (phase s1 + int m') mod 4)
      = (if m + m' = 0 then phase s else (phase s + int (m + m')) mod 4)"
    unfolding p1 by (auto simp: mod_simps algebra_simps)
  have e: "s2 = s\<lparr>clock := c', out := (ev' @ ev) @ out s, pqiv_count := n', gDispAnim := a',
               phase := (if m + m' = 0 then phase s else (phase s + int (m + m')) mod 4)\<rparr>"
    unfolding 2(1) ph[symmetric] unfolding 1(1) by (cases s) simp
  have "map (\<lambda>i. (phase s1 + int i) mod 4) [0..<m'] = map (\<lambda>i. (phase s + int i) mod 4) [m..<m + m']"
  proof (rule nth_equalityI)
    show "length (map (\<lambda>i. (phase s1 + int i) mod 4) [0..<m']) = length (map (\<lambda>i. (phase s + int i) mod 4) [m..<m + m'])"
      by simp
    fix i assume "i < length (map (\<lambda>i. (phase s1 + int i) mod 4) [0..<m'])"
    then have i: "i < m'" by simp
    then show "map (\<lambda>i. (phase s1 + int i) mod 4) [0..<m'] ! i = map (\<lambda>i. (phase s + int i) mod 4) [m..<m + m'] ! i"
      unfolding p1 by (auto simp: mod_simps algebra_simps)
  qed
  then have mp: "motor_phases (ev' @ ev) = map (\<lambda>i. (phase s + int i) mod 4) [0..<m + m']"
    using 1(2) 2(2) by (simp add: motor_phases_append upt_add_eq_append[of 0 m m', simplified] del: upt_Suc)
  have c: "clock s \<le> c'" using 1(3) 2(3) by (subst (asm) 1(1)) simp
  show ?thesis unfolding burst_rel_def
    apply (rule exI[of _ c'], rule exI[of _ "ev' @ ev"], rule exI[of _ n'], rule exI[of _ a'])
    using e mp c 2(4) by blast
qed


lemma burst_rel_upd:
  assumes "disp_live (s\<lparr>clock := c, out := ev @ out s, pqiv_count := n, gDispAnim := a\<rparr>)"
    "motor_phases ev = []" "clock s \<le> c"
  shows "burst_rel 0 s (s\<lparr>clock := c, out := ev @ out s, pqiv_count := n, gDispAnim := a\<rparr>)"
  unfolding burst_rel_def
  apply (rule exI[of _ c], rule exI[of _ ev], rule exI[of _ n], rule exI[of _ a])
  using assms by simp

lemma burst_rel_usleep: "disp_live s \<Longrightarrow> 0 \<le> d \<Longrightarrow> burst_rel 0 s (usleep d s)"
  unfolding burst_rel_def usleep_def
  apply (rule exI[of _ "clock s + d"], rule exI[of _ "[]"], rule exI[of _ "pqiv_count s"], rule exI[of _ "gDispAnim s"])
  by (simp add: disp_live_def)

lemma burst_rel_motor_stop: "disp_live s \<Longrightarrow> burst_rel 0 s (motor_stop s)"
  unfolding burst_rel_def motor_stop_def emit_def
  apply (rule exI[of _ "clock s"], rule exI[of _ "[EvMotorStop]"], rule exI[of _ "pqiv_count s"], rule exI[of _ "gDispAnim s"])
  by (simp add: disp_live_def)

lemma anim_tick_disp_live:
  assumes "disp_live s"
  shows "\<exists>s'. anim_tick_disp s = Some s' \<and> burst_rel 0 s s'
     \<and> (armed (gDispAnim s) \<and> next_ms (gDispAnim s) \<le> now_ms s \<longrightarrow>
            length (pending (gDispAnim s)) = Suc (length (pending (gDispAnim s'))))
     \<and> (\<not> (armed (gDispAnim s) \<and> next_ms (gDispAnim s) \<le> now_ms s) \<longrightarrow> s' = s)"
proof (cases "armed (gDispAnim s) \<and> next_ms (gDispAnim s) \<le> now_ms s")
  case True
  have wf: "wf_anim (gDispAnim s)" using assms by (simp add: disp_live_def)
  from pending_due[of "gDispAnim s" "now_ms s" "files s"] True wf obtain a' p where
    a: "anim_tick_core (files s) (now_ms s) (gDispAnim s) = Some (a', Some p)" "wf_anim a'"
     "pending (gDispAnim s) = frames (gDispAnim s) ! nat (idx (gDispAnim s)) # pending a'"
     "oneshot_done a' \<or> armed a'"
    by blast
  let ?s' = "s\<lparr>clock := clock s + (if pqiv_count s \<ge> PQIV_KEEP then 60000 else 0) + 25000,
       out := [EvImage p] @ out s,
       pqiv_count := (if pqiv_count s < PQIV_KEEP then pqiv_count s + 1 else pqiv_count s),
       gDispAnim := a'\<rparr>"
  have e: "anim_tick_disp s = Some ?s'"
    using a(1) by (simp add: anim_tick_disp_def show_opt_def show_image_eq)
  have "burst_rel 0 s ?s'"
    by (rule burst_rel_upd) (use a in \<open>auto simp: disp_live_def\<close>)
  then show ?thesis using e a(3) True by simp
next
  case False
  then have "anim_tick_core (files s) (now_ms s) (gDispAnim s) = Some (gDispAnim s, None)"
    using tick_early[of "gDispAnim s" "now_ms s" "files s"] tick_idle[of "gDispAnim s" "files s" "now_ms s"]
    by force
  then have "anim_tick_disp s = Some s"
    by (simp add: anim_tick_disp_def show_opt_def)
  then show ?thesis using False burst_rel_refl[OF assms] by simp
qed

lemma disp_phase_step_rel:
  assumes "disp_live s"
  shows "\<exists>s'. disp_phase_step s = Some s' \<and> burst_rel 1 s s'"
proof -
  let ?s1 = "s\<lparr>out := [EvMotor (phase s mod 4)] @ out s, phase := (phase s + 1) mod 4\<rparr>"
  have b1: "burst_rel 1 s ?s1"
    unfolding burst_rel_def
    apply (rule exI[of _ "clock s"], rule exI[of _ "[EvMotor (phase s mod 4)]"], rule exI[of _ "pqiv_count s"], rule exI[of _ "gDispAnim s"])
    using assms by (simp add: disp_live_def)
  then have "disp_live ?s1" by (rule burst_rel_live)
  from anim_tick_disp_live[OF this] obtain s2 where s2: "anim_tick_disp ?s1 = Some s2" "burst_rel 0 ?s1 s2"
    by blast
  have "disp_live s2" using s2(2) by (rule burst_rel_live)
  then have b3: "burst_rel 0 s2 (usleep DISP_PHASE_DELAY_US s2)"
    by (rule burst_rel_usleep) (simp add: DISP_PHASE_DELAY_US_def DISPENSE_CYCLE_US_def TOTAL_STEPS_PER_ITEM_def)
  have "disp_phase_step s = Some (usleep DISP_PHASE_DELAY_US s2)"
    using s2(1) by (simp add: disp_phase_step_def motor_write_phase_def emit_def Let_def and3_mod4)
  moreover have "burst_rel 1 s (usleep DISP_PHASE_DELAY_US s2)"
    using burst_rel_trans[OF burst_rel_trans[OF b1 s2(2)] b3] by simp
  ultimately show ?thesis by blast
qed

lemma repeat_rel:
  assumes body: "\<And>s. disp_live s \<Longrightarrow> \<exists>s'. body s = Some s' \<and> burst_rel m s s'"
    and "disp_live s"
  shows "\<exists>s'. repeat k body s = Some s' \<and> burst_rel (k * m) s s'"
  using assms(2)
proof (induction k arbitrary: s)
  case 0
  then show ?case by (simp add: burst_rel_refl)
next
  case (Suc k)
  from body[OF Suc.prems] obtain s1 where s1: "body s = Some s1" "burst_rel m s s1" by blast
  from Suc.IH[OF burst_rel_live[OF s1(2)]] obtain s2 where
    s2: "repeat k body s1 = Some s2" "burst_rel (k * m) s1 s2" by blast
  have "burst_rel (Suc k * m) s s2" using burst_rel_trans[OF s1(2) s2(2)] by simp
  then show ?case using s1(1) s2(1) by simp
qed

lemma disp_step_rel:
  assumes "disp_live s"
  shows "\<exists>s'. disp_step s = Some s' \<and> burst_rel 4 s s'"
proof -
  from anim_tick_disp_live[OF assms] obtain s1 where s1: "anim_tick_disp s = Some s1" "burst_rel 0 s s1"
    by blast
  from repeat_rel[of disp_phase_step 1 s1 4, OF disp_phase_step_rel burst_rel_live[OF s1(2)]]
  obtain s2 where s2: "repeat 4 disp_phase_step s1 = Some s2" "burst_rel 4 s1 s2" by auto
  have "burst_rel 4 s s2" using burst_rel_trans[OF s1(2) s2(2)] by simp
  then show ?thesis using s1(1) s2(1) by (simp add: disp_step_def)
qed

lemma run_one_rel:
  assumes "disp_live s"
  shows "\<exists>s'. run_one_dispense_cycle_with_anim s = Some s' \<and> burst_rel (TOTAL_STEPS_PER_ITEM * 4) s s'"
proof -
  from repeat_rel[of disp_step 4 s TOTAL_STEPS_PER_ITEM, OF disp_step_rel assms]
  obtain s1 where s1: "repeat TOTAL_STEPS_PER_ITEM disp_step s = Some s1" "burst_rel (TOTAL_STEPS_PER_ITEM * 4) s s1"
    by auto
  have "burst_rel (TOTAL_STEPS_PER_ITEM * 4) s (motor_stop s1)"
    using burst_rel_trans[OF s1(2) burst_rel_motor_stop[OF burst_rel_live[OF s1(2)]]] by simp
  then show ?thesis using s1(1) by (simp add: run_one_dispense_cycle_with_anim_def)
qed

lemma dispense_units_rel:
  assumes "disp_live s"
  shows "\<exists>s'. dispense_units n s = Some s' \<and> burst_rel (n * (TOTAL_STEPS_PER_ITEM * 4)) s s'"
  using assms
proof (induction n arbitrary: s)
  case 0
  then show ?case by (simp add: burst_rel_refl)
next
  case (Suc n)
  from run_one_rel[OF Suc.prems] obtain s1 where
    s1: "run_one_dispense_cycle_with_anim s = Some s1" "burst_rel (TOTAL_STEPS_PER_ITEM * 4) s s1" by blast
  let ?s2 = "if n \<noteq> 0 then usleep 150000 s1 else s1"
  have l1: "disp_live s1" using s1(2) by (rule burst_rel_live)
  have b2: "burst_rel 0 s1 ?s2" using burst_rel_usleep[OF l1, of 150000] burst_rel_refl[OF l1] by simp
  from Suc.IH[OF burst_rel_live[OF b2]] obtain s3 where
    s3: "dispense_units n ?s2 = Some s3" "burst_rel (n * (TOTAL_STEPS_PER_ITEM * 4)) ?s2 s3" by blast
  have "burst_rel (Suc n * (TOTAL_STEPS_PER_ITEM * 4)) s s3"
    using burst_rel_trans[OF burst_rel_trans[OF s1(2) b2] s3(2)] by simp
  then show ?case using s1(1) s3(1) by simp
qed


lemma now_ms_usleep: "now_ms (usleep 20000 s) = now_ms s + 20"
  by (simp add: now_ms_def usleep_def)

lemma anim_wait_done_total:
  assumes "disp_live s"
  shows "\<exists>s'. anim_wait_done s = Some s' \<and> burst_rel 0 s s' \<and> oneshot_done (gDispAnim s')"
  using assms
proof (induction m \<equiv> "length (pending (gDispAnim s))" arbitrary: s)
  case 0
  then have "\<not> armed (gDispAnim s)"
    by (auto simp: pending_def disp_live_def wf_anim_def armed_def split: if_splits)
  then have d: "oneshot_done (gDispAnim s)" using "0.prems" by (simp add: disp_live_def)
  then have "anim_wait_done s = Some s" by (subst anim_wait_done.simps) simp
  then show ?case using d burst_rel_refl[OF "0.prems"] by simp
next
  case (Suc m)
  have ar: "armed (gDispAnim s)" using Suc.hyps(2) by (auto simp: pending_def split: if_splits)
  then have nd: "\<not> oneshot_done (gDispAnim s)" by (simp add: armed_def)
  show ?case using Suc.prems Suc.hyps(2) ar nd
  proof (induction w \<equiv> "nat (next_ms (gDispAnim s) - now_ms s)" arbitrary: s rule: less_induct)
    case less
    from anim_tick_disp_live[OF less.prems(1)] obtain s1 where s1: "anim_tick_disp s = Some s1"
      "burst_rel 0 s s1"
      "armed (gDispAnim s) \<and> next_ms (gDispAnim s) \<le> now_ms s \<longrightarrow>
            length (pending (gDispAnim s)) = Suc (length (pending (gDispAnim s1)))"
      "\<not> (armed (gDispAnim s) \<and> next_ms (gDispAnim s) \<le> now_ms s) \<longrightarrow> s1 = s"
      by blast
    let ?s2 = "usleep 20000 s1"
    have l1: "disp_live s1" using s1(2) by (rule burst_rel_live)
    have b2: "burst_rel 0 s1 ?s2" by (rule burst_rel_usleep[OF l1]) simp
    have l2: "disp_live ?s2" using b2 by (rule burst_rel_live)
    have g2: "gDispAnim ?s2 = gDispAnim s1" by (simp add: usleep_def)
    have unfold: "anim_wait_done s = anim_wait_done ?s2"
      using less.prems(4) s1(1) by (subst anim_wait_done.simps) simp
    have "\<exists>s'. anim_wait_done ?s2 = Some s' \<and> burst_rel 0 ?s2 s' \<and> oneshot_done (gDispAnim s')"
    proof (cases "next_ms (gDispAnim s) \<le> now_ms s")
      case True
      then have "m = length (pending (gDispAnim ?s2))"
        using s1(3) less.prems(2,3) g2 by simp
      from Suc.hyps(1)[OF this l2] show ?thesis .
    next
      case False
      then have e: "s1 = s" using s1(4) by simp
      have "nat (next_ms (gDispAnim ?s2) - now_ms ?s2) < nat (next_ms (gDispAnim s) - now_ms s)"
        using False unfolding e now_ms_usleep g2[unfolded e] by simp
      from less.hyps[OF this l2] less.prems(2,3,4) show ?thesis
        by (simp add: e usleep_def)
    qed
    then obtain s' where s': "anim_wait_done ?s2 = Some s'" "burst_rel 0 ?s2 s'" "oneshot_done (gDispAnim s')"
      by blast
    have "burst_rel 0 s s'" using burst_rel_trans[OF burst_rel_trans[OF s1(2) b2] s'(2)] by simp
    then show ?case using unfold s'(1,3) by simp
  qed
qed

lemma dispense_burst_rel:
  assumes "disp_live s"
  shows "\<exists>s'. dispense_burst n s = Some s' \<and> burst_rel (n * (TOTAL_STEPS_PER_ITEM * 4)) s s'
     \<and> oneshot_done (gDispAnim s')"
proof -
  from dispense_units_rel[OF assms, of n] obtain s1 where
    s1: "dispense_units n s = Some s1" "burst_rel (n * (TOTAL_STEPS_PER_ITEM * 4)) s s1" by blast
  from anim_wait_done_total[OF burst_rel_live[OF s1(2)]] obtain s2 where
    s2: "anim_wait_done s1 = Some s2" "burst_rel 0 s1 s2" "oneshot_done (gDispAnim s2)" by blast
  have "burst_rel (n * (TOTAL_STEPS_PER_ITEM * 4)) s s2" using burst_rel_trans[OF s1(2) s2(2)] by simp
  then show ?thesis using s1(1) s2(1,3) by (simp add: dispense_burst_def)
qed


lemma disp_live_start:
  "disp_live (s\<lparr>gDispAnim := anim_start a disp_frames DISP_N 1 DISP_FRAME_MS now\<rparr>)"
proof -
  have "disp_frames \<noteq> []" "DISP_N = int (length disp_frames)"
    by (simp_all add: disp_frames_def DISP_N_def)
  then show ?thesis
    using wf_start[of disp_frames a 1 DISP_FRAME_MS now] armed_start
    by (simp add: disp_live_def)
qed

lemma burst_rel_phases:
  assumes "burst_rel m s s'"
  shows "motor_phases (out s') = motor_phases (out s) @ map (\<lambda>i. (phase s + int i) mod 4) [0..<m]"
    and "phase s' = (if m = 0 then phase s else (phase s + int m) mod 4)"
proof -
  from assms obtain c ev n a where 1:
    "s' = s\<lparr>clock := c, out := ev @ out s, pqiv_count := n, gDispAnim := a,
               phase := (if m = 0 then phase s else (phase s + int m) mod 4)\<rparr>"
    "motor_phases ev = map (\<lambda>i. (phase s + int i) mod 4) [0..<m]"
    unfolding burst_rel_def by blast
  have "out s' = ev @ out s" by (subst 1(1)) simp
  then show "motor_phases (out s') = motor_phases (out s) @ map (\<lambda>i. (phase s + int i) mod 4) [0..<m]"
    using 1(2) by (simp add: motor_phases_append)
  show "phase s' = (if m = 0 then phase s else (phase s + int m) mod 4)" by (subst 1(1)) simp
qed

text \<open>
  C6. A burst of \<open>n \<ge> 1\<close> units, entered as the source enters it (right after
  \<^verbatim>\<open>anim_start\<close> of the dispensing track), returns. It has driven the motor phase
  exactly \<open>n * (TOTAL_STEPS_PER_ITEM * 4)\<close> times, that is 240 times per unit; the phases
  driven are \<open>p, p + 1, p + 2, ...\<close> modulo 4, starting from the stored phase \<open>p\<close>, over
  all units without a reset; the stored phase has advanced by that count; and the
  dispensing track is complete when the burst returns.
\<close>

theorem dispense_burst_phases_and_animation:
  assumes "1 \<le> n"
    and "s0 = s\<lparr>gDispAnim := anim_start (gDispAnim s) disp_frames DISP_N 1 DISP_FRAME_MS (now_ms s)\<rparr>"
  shows "\<exists>s'. dispense_burst n s0 = Some s'
      \<and> motor_phases (out s') = motor_phases (out s)
            @ map (\<lambda>i. (phase s + int i) mod 4) [0..<n * (TOTAL_STEPS_PER_ITEM * 4)]
      \<and> length (motor_phases (out s')) = length (motor_phases (out s)) + n * 240
      \<and> phase s' = (phase s + int (n * (TOTAL_STEPS_PER_ITEM * 4))) mod 4
      \<and> oneshot_done (gDispAnim s')"
proof -
  have l: "disp_live s0" unfolding assms(2) by (rule disp_live_start)
  from dispense_burst_rel[OF l, of n] obtain s' where
    s': "dispense_burst n s0 = Some s'" "burst_rel (n * (TOTAL_STEPS_PER_ITEM * 4)) s0 s'"
      "oneshot_done (gDispAnim s')" by blast
  have f: "out s0 = out s" "phase s0 = phase s" unfolding assms(2) by simp_all
  have nz: "n * (TOTAL_STEPS_PER_ITEM * 4) \<noteq> 0" using assms(1) by (simp add: TOTAL_STEPS_PER_ITEM_def)
  from burst_rel_phases[OF s'(2)] f nz
  have "motor_phases (out s') = motor_phases (out s)
            @ map (\<lambda>i. (phase s + int i) mod 4) [0..<n * (TOTAL_STEPS_PER_ITEM * 4)]"
       "phase s' = (phase s + int (n * (TOTAL_STEPS_PER_ITEM * 4))) mod 4"
    by simp_all
  moreover from this(1) have "length (motor_phases (out s')) = length (motor_phases (out s)) + n * 240"
    by (simp add: TOTAL_STEPS_PER_ITEM_def)
  ultimately show ?thesis using s'(1,3) by blast
qed


section \<open>The loop invariant\<close>

lemma item_at_valid [simp]: "valid_slot its i \<Longrightarrow> item_at its i = Some (its ! nat i)"
  by (simp add: valid_slot_def item_at_def)

lemma find_slot_from_range:
  "find_slot_from i its w = - 1 \<or> (i \<le> find_slot_from i its w \<and> find_slot_from i its w < i + int (length its))"
  if "0 \<le> i"
  using that
proof (induction its arbitrary: i)
  case Nil
  then show ?case by simp
next
  case (Cons a its)
  from Cons.IH[of "i + 1"] Cons.prems show ?case by auto
qed

lemma find_slot_valid:
  "find_slot_by_index its w < 0 \<or> valid_slot its (find_slot_by_index its w)"
  using find_slot_from_range[of 0 its w] by (auto simp: find_slot_by_index_def valid_slot_def)

lemma valid_slot_set_stock [simp]: "valid_slot (set_stock i v its) j = valid_slot its j"
  by (simp add: valid_slot_def set_stock_def)

lemma stocks_ok_set_stock:
  assumes "stocks_ok its" "0 \<le> v" "v \<le> MAX_COUNT"
  shows "stocks_ok (set_stock i v its)"
proof -
  have "set (its[nat i := (its ! nat i)\<lparr>stock := v\<rparr>]) \<subseteq> insert ((its ! nat i)\<lparr>stock := v\<rparr>) (set its)"
    by (rule set_update_subset_insert)
  then show ?thesis using assms by (auto simp: stocks_ok_def set_stock_def list_all_iff)
qed

lemma ui_rel_refl: "wf_anim (gDoorAnim s) \<Longrightarrow> wf_anim (gDispAnim s) \<Longrightarrow> ui_rel s s"
  unfolding ui_rel_def
  apply (rule exI[of _ "clock s"], rule exI[of _ "[]"], rule exI[of _ "pqiv_count s"],
     rule exI[of _ "gDoorAnim s"], rule exI[of _ "gDispAnim s"], rule exI[of _ "last_shown s"],
     rule exI[of _ "svc_blink_next s"], rule exI[of _ "svc_blink_on s"])
  by simp

lemma ui_rel_trans:
  assumes "ui_rel s s1" "ui_rel s1 s2"
  shows "ui_rel s s2"
proof -
  from assms(1) obtain c ev n a1 a2 l bn bo where 1:
    "s1 = s\<lparr>clock := c, out := ev @ out s, pqiv_count := n, gDoorAnim := a1, gDispAnim := a2,
               last_shown := l, svc_blink_next := bn, svc_blink_on := bo\<rparr>"
    "motor_phases ev = []" "clock s \<le> c"
    "\<not> armed (gDispAnim s) \<longrightarrow> a2 = gDispAnim s" "\<not> armed (gDoorAnim s) \<longrightarrow> a1 = gDoorAnim s"
    unfolding ui_rel_def by blast
  from assms(2) obtain c' ev' n' a1' a2' l' bn' bo' where 2:
    "s2 = s1\<lparr>clock := c', out := ev' @ out s1, pqiv_count := n', gDoorAnim := a1', gDispAnim := a2',
               last_shown := l', svc_blink_next := bn', svc_blink_on := bo'\<rparr>"
    "motor_phases ev' = []" "clock s1 \<le> c'" "wf_anim a1'" "wf_anim a2'"
    "\<not> armed (gDispAnim s1) \<longrightarrow> a2' = gDispAnim s1" "\<not> armed (gDoorAnim s1) \<longrightarrow> a1' = gDoorAnim s1"
    unfolding ui_rel_def by blast
  have f: "clock s1 = c" "gDispAnim s1 = a2" "gDoorAnim s1 = a1" by (simp_all add: 1(1))
  have e: "s2 = s\<lparr>clock := c', out := (ev' @ ev) @ out s, pqiv_count := n', gDoorAnim := a1', gDispAnim := a2',
               last_shown := l', svc_blink_next := bn', svc_blink_on := bo'\<rparr>"
    unfolding 2(1) unfolding 1(1) by (cases s) simp
  show ?thesis unfolding ui_rel_def
    apply (rule exI[of _ c'], rule exI[of _ "ev' @ ev"], rule exI[of _ n'],
     rule exI[of _ a1'], rule exI[of _ a2'], rule exI[of _ l'],
     rule exI[of _ bn'], rule exI[of _ bo'])
    using e 1(2-5) 2(2-7) f by (auto simp: motor_phases_append)
qed

lemma ui_rel_fields:
  assumes "ui_rel s s'"
  shows "st s' = st s" "service_mode s' = service_mode s" "port_mapping s' = port_mapping s"
    "items s' = items s" "selbuf s' = selbuf s" "amtbuf s' = amtbuf s" "svcbuf s' = svcbuf s"
    "chosen_slot s' = chosen_slot s" "amount s' = amount s" "pay_zero_count s' = pay_zero_count s"
    "index_timer_active s' = index_timer_active s" "idle_deadline s' = idle_deadline s"
    "svc_gate_deadline s' = svc_gate_deadline s" "return_gate_deadline s' = return_gate_deadline s"
    "svc_disp_slot s' = svc_disp_slot s" "restock_slot s' = restock_slot s"
    "phase s' = phase s" "spin_phase s' = spin_phase s" "files s' = files s"
    "motor_phases (out s') = motor_phases (out s)" "clock s \<le> clock s'"
    "\<exists>ev. out s' = ev @ out s"
    "wf_anim (gDoorAnim s')" "wf_anim (gDispAnim s')"
    "\<not> armed (gDispAnim s) \<Longrightarrow> gDispAnim s' = gDispAnim s"
    "\<not> armed (gDoorAnim s) \<Longrightarrow> gDoorAnim s' = gDoorAnim s"
  using assms unfolding ui_rel_def by (auto simp: port_mapping_def motor_phases_append)

lemma ui_rel_inv: "inv s \<Longrightarrow> ui_rel s s' \<Longrightarrow> inv s'"
  using ui_rel_fields[of s s']
  by (simp add: inv_def armed_def)

lemma ui_relI:
  assumes "s' = s\<lparr>clock := clock s', out := ev @ out s, pqiv_count := pqiv_count s',
               gDoorAnim := gDoorAnim s', gDispAnim := gDispAnim s',
               last_shown := last_shown s', svc_blink_next := svc_blink_next s',
               svc_blink_on := svc_blink_on s'\<rparr>"
    "motor_phases ev = []" "clock s \<le> clock s'" "wf_anim (gDoorAnim s')" "wf_anim (gDispAnim s')"
    "\<not> armed (gDispAnim s) \<longrightarrow> gDispAnim s' = gDispAnim s"
    "\<not> armed (gDoorAnim s) \<longrightarrow> gDoorAnim s' = gDoorAnim s"
  shows "ui_rel s s'"
  unfolding ui_rel_def
  apply (rule exI[of _ "clock s'"], rule exI[of _ ev], rule exI[of _ "pqiv_count s'"],
     rule exI[of _ "gDoorAnim s'"], rule exI[of _ "gDispAnim s'"], rule exI[of _ "last_shown s'"],
     rule exI[of _ "svc_blink_next s'"], rule exI[of _ "svc_blink_on s'"])
  using assms by (intro conjI) assumption+

lemma inv_wf: "inv s \<Longrightarrow> wf_anim (gDoorAnim s)" "inv s \<Longrightarrow> wf_anim (gDispAnim s)"
  by (simp_all add: inv_def)

lemma ui_rel_beep_keypress: "inv s \<Longrightarrow> ui_rel s (beep_keypress s)"
  apply (rule ui_relI[where ev = "[EvTone 25 650 200 20]"])
  by (simp_all add: ops inv_wf beep_wait_ge)

lemma ui_rel_wait_key_release: "inv s \<Longrightarrow> ui_rel s (wait_key_release hold s)"
  apply (rule ui_relI[where ev = "[]"])
  by (simp_all add: ops inv_wf)

lemma ui_rel_timer_update_display: "inv s \<Longrightarrow> ui_rel s (timer_update_display t s)"
proof -
  assume i: "inv s"
  from timer_update_display_out[of t s] obtain ev where
    ev: "out (timer_update_display t s) = ev @ out s" "motor_phases ev = []" by blast
  have e: "timer_update_display t s = s\<lparr>out := out (timer_update_display t s),
          last_shown := last_shown (timer_update_display t s)\<rparr>"
    by (simp add: timer_update_display_eq)
  show ?thesis
    apply (rule ui_relI[where ev = ev])
          apply (subst e) apply (simp add: ev(1))
    using i by (simp_all add: ev inv_wf)
qed

lemma ui_rel_service_blink_tick: "inv s \<Longrightarrow> ui_rel s (service_blink_tick t s)"
proof -
  assume i: "inv s"
  from service_blink_tick_out[of t s] obtain ev where
    ev: "out (service_blink_tick t s) = ev @ out s" "motor_phases ev = []" by blast
  have e: "service_blink_tick t s = s\<lparr>out := out (service_blink_tick t s),
          svc_blink_next := svc_blink_next (service_blink_tick t s),
          svc_blink_on := svc_blink_on (service_blink_tick t s)\<rparr>"
    by (simp add: service_blink_tick_eq)
  show ?thesis
    apply (rule ui_relI[where ev = ev])
          apply (subst e) apply (simp add: ev(1))
    using i by (simp_all add: ev inv_wf)
qed

lemma step_decomp:
  assumes "inv s"
  shows "\<exists>s2. ui_rel s s2 \<and> (oneshot_done (gDoorAnim s2) \<longleftrightarrow> door_completes s)
     \<and> (\<forall>k hold. step k hold s = pass_body (now_ms s) k hold s2)"
proof -
  from step_ticks[OF inv_wf[OF assms]] obtain c ev n a1 a2 where
    1: "\<forall>k hold. step k hold s = pass_body (now_ms s) k hold
               (s\<lparr>clock := c, out := ev @ out s, pqiv_count := n, gDoorAnim := a1, gDispAnim := a2\<rparr>)"
     "motor_phases ev = []" "wf_anim a1" "wf_anim a2" "clock s \<le> c"
     "\<not> armed (gDispAnim s) \<longrightarrow> a2 = gDispAnim s"
     "\<not> armed (gDoorAnim s) \<longrightarrow> a1 = gDoorAnim s"
     "door_completes s = oneshot_done a1"
    by blast
  let ?s2 = "s\<lparr>clock := c, out := ev @ out s, pqiv_count := n, gDoorAnim := a1, gDispAnim := a2\<rparr>"
  have "ui_rel s ?s2"
    apply (rule ui_relI[where ev = ev])
    using 1(2-7) by simp_all
  then show ?thesis using 1(1,8) by (intro exI[of _ ?s2]) simp
qed


subsection \<open>Every branch of a pass keeps the invariant\<close>

named_theorems invs

lemmas [invs] = inv_def customer_state_def port_mapping_def normal_ports_def changes_ok_def
  svc_gate_expired_def return_gate_expired_def

lemma leaf_key_back:
  assumes "inv x" "st x \<noteq> ST_SVC_GATE" "st x \<noteq> ST_RETURN_GATE"
  shows "inv (key_back x) \<and> changes_ok t k x (key_back x) \<and> items (key_back x) = items x"
  using assms
  by (simp add: key_back_def invs ops Let_def)

lemma leaf_svc_gate_timeout:
  assumes "inv x" "svc_gate_expired t x"
  shows "inv (svc_gate_timeout x) \<and> changes_ok t k x (svc_gate_timeout x) \<and> items (svc_gate_timeout x) = items x"
  using assms
  by (simp add: svc_gate_timeout_def invs ops Let_def)

lemma leaf_return_gate_timeout:
  assumes "inv x" "return_gate_expired t x"
  shows "inv (return_gate_timeout x) \<and> changes_ok t k x (return_gate_timeout x) \<and> items (return_gate_timeout x) = items x"
  using assms
  by (simp add: return_gate_timeout_def invs ops Let_def)

lemma leaf_idle_timeout:
  assumes "inv x" "\<not> service_mode x"
  shows "inv (idle_timeout x) \<and> changes_ok t k x (idle_timeout x) \<and> items (idle_timeout x) = items x"
  using assms
  by (simp add: idle_timeout_def invs ops Let_def)

lemma leaf_svc_gate_confirm:
  assumes "inv x" "st x = ST_SVC_GATE" "k \<noteq> NO_KEY" "\<not> svc_gate_expired t x"
  shows "inv (svc_gate_confirm x) \<and> changes_ok t k x (svc_gate_confirm x) \<and> items (svc_gate_confirm x) = items x"
  using assms wf_start[of door_frames "(gDoorAnim x)\<lparr>oneshot_done := False\<rparr>" 1 DOOR_FRAME_MS "now_ms x"]
  by (simp add: svc_gate_confirm_def invs ops Let_def door_frames_def DOOR_N_def)

lemma leaf_return_gate_confirm:
  assumes "inv x" "st x = ST_RETURN_GATE"
  shows "inv (return_gate_confirm x) \<and> changes_ok t k x (return_gate_confirm x) \<and> items (return_gate_confirm x) = items x"
  using assms wf_start[of door_frames "(gDoorAnim x)\<lparr>oneshot_done := False\<rparr>" "- 1" DOOR_FRAME_MS "now_ms x"]
  by (simp add: return_gate_confirm_def invs ops Let_def door_frames_def DOOR_N_def)

lemma leaf_beep_error:
  assumes "inv x"
  shows "inv (beep_error x) \<and> changes_ok t k x (beep_error x) \<and> items (beep_error x) = items x"
  using assms
  by (simp add: invs ops Let_def)


lemma burst_rel_fields:
  assumes "burst_rel m s s'"
  shows "st s' = st s" "service_mode s' = service_mode s" "port_mapping s' = port_mapping s"
    "items s' = items s" "selbuf s' = selbuf s" "amtbuf s' = amtbuf s" "svcbuf s' = svcbuf s"
    "chosen_slot s' = chosen_slot s" "amount s' = amount s" "pay_zero_count s' = pay_zero_count s"
    "index_timer_active s' = index_timer_active s" "idle_deadline s' = idle_deadline s"
    "svc_gate_deadline s' = svc_gate_deadline s" "return_gate_deadline s' = return_gate_deadline s"
    "svc_disp_slot s' = svc_disp_slot s" "restock_slot s' = restock_slot s"
    "gDoorAnim s' = gDoorAnim s" "wf_anim (gDispAnim s')" "\<exists>ev. out s' = ev @ out s"
  using assms unfolding burst_rel_def by (auto simp: port_mapping_def disp_live_def)

lemma leaf_key_digit:
  assumes "inv x"
  shows "\<exists>x'. key_digit k x = Some x' \<and> inv x' \<and> changes_ok t k x x' \<and> items x' = items x"
  using assms
  by (simp add: key_digit_def pay_digit_def svc_digit_screen_def invs ops Let_def wf_anim_def)

lemma leaf_enter_menu:
  assumes "inv x" "st x = ST_MENU"
  shows "\<exists>x'. enter_menu x = Some x' \<and> inv x' \<and> changes_ok t KEY_ENTER x x' \<and> items x' = items x"
  using assms find_slot_valid[of "items x" "atoi (selbuf x)"]
  by (auto simp add: enter_menu_def invs ops Let_def)

lemma leaf_enter_amount:
  assumes "inv x" "st x = ST_AMOUNT"
  shows "\<exists>x'. enter_amount x = Some x' \<and> inv x' \<and> changes_ok t k x x' \<and> items x' = items x"
  using assms
  by (simp add: enter_amount_def invs ops Let_def)

lemma leaf_enter_svc_menu:
  assumes "inv x" "st x = ST_SVC_MENU"
  shows "inv (enter_svc_menu x) \<and> changes_ok t KEY_ENTER x (enter_svc_menu x) \<and> items (enter_svc_menu x) = items x"
  using assms
  by (simp add: enter_svc_menu_def invs ops Let_def)

lemma leaf_enter_svc_dispense_idx:
  assumes "inv x" "st x = ST_SVC_DISPENSE_IDX"
  shows "\<exists>x'. enter_svc_dispense_idx x = Some x' \<and> inv x' \<and> changes_ok t k x x' \<and> items x' = items x"
  using assms find_slot_valid[of "items x" "atoi (svcbuf x)"]
  by (auto simp add: enter_svc_dispense_idx_def invs ops Let_def)

lemma leaf_enter_svc_restock_idx:
  assumes "inv x" "st x = ST_SVC_RESTOCK_IDX"
  shows "\<exists>x'. enter_svc_restock_idx x = Some x' \<and> inv x' \<and> changes_ok t k x x' \<and> items x' = items x"
  using assms find_slot_valid[of "items x" "atoi (svcbuf x)"]
  by (auto simp add: enter_svc_restock_idx_def invs ops Let_def)

lemma leaf_enter_svc_restock_qty:
  assumes "inv x" "st x = ST_SVC_RESTOCK_QTY"
  shows "\<exists>x'. enter_svc_restock_qty x = Some x' \<and> inv x' \<and> changes_ok t k x x'"
  using assms stocks_ok_set_stock[of "items x" "atoi (svcbuf x)" "restock_slot x"]
  by (simp add: enter_svc_restock_qty_def invs ops Let_def MAX_COUNT_def)

lemma leaf_enter_svc_sound_sel:
  assumes "inv x" "st x = ST_SVC_SOUND_SEL"
  shows "inv (enter_svc_sound_sel x) \<and> changes_ok t k x (enter_svc_sound_sel x) \<and> items (enter_svc_sound_sel x) = items x"
  using assms
  by (simp add: enter_svc_sound_sel_def play_sound_def invs ops Let_def)

lemma spin_rel_refl: "spin_rel s s"
  unfolding spin_rel_def
  by (rule exI[of _ "clock s"], rule exI[of _ "[]"], rule exI[of _ "spin_phase s"]) simp

lemma spin_rel_trans: "spin_rel s s1 \<Longrightarrow> spin_rel s1 s2 \<Longrightarrow> spin_rel s s2"
proof -
  assume "spin_rel s s1" "spin_rel s1 s2"
  then obtain c ev p c' ev' p' where
    1: "s1 = s\<lparr>clock := c, out := ev @ out s, spin_phase := p\<rparr>"
    and 2: "s2 = s1\<lparr>clock := c', out := ev' @ out s1, spin_phase := p'\<rparr>"
    unfolding spin_rel_def by blast
  have "s2 = s\<lparr>clock := c', out := (ev' @ ev) @ out s, spin_phase := p'\<rparr>"
    unfolding 2 unfolding 1 by (cases s) simp
  then show ?thesis unfolding spin_rel_def by blast
qed

lemma repeat_spin:
  assumes "\<And>s. \<exists>s'. body s = Some s' \<and> spin_rel s s'"
  shows "\<exists>s'. repeat n body s = Some s' \<and> spin_rel s s'"
proof (induction n arbitrary: s)
  case 0
  then show ?case by (simp add: spin_rel_refl)
next
  case (Suc n)
  from assms[of s] obtain s1 where s1: "body s = Some s1" "spin_rel s s1" by blast
  from Suc[of s1] obtain s2 where s2: "repeat n body s1 = Some s2" "spin_rel s1 s2" by blast
  show ?case using s1 s2 spin_rel_trans by auto
qed

lemma spin_phase_step_rel: "\<exists>s'. spin_phase_step s = Some s' \<and> spin_rel s s'"
proof -
  have "spin_phase_step s = Some (s\<lparr>clock := clock s + MOTOR_PHASE_DELAY_US,
      out := [EvMotor (spin_phase s AND 3)] @ out s, spin_phase := (spin_phase s + 1) AND 3\<rparr>)"
    by (simp add: spin_phase_step_def motor_write_phase_def emit_def usleep_def Let_def)
  then show ?thesis unfolding spin_rel_def by blast
qed

lemma motor_spin_one_cycle_rel: "\<exists>s'. motor_spin_one_cycle s = Some s' \<and> spin_rel s s'"
proof -
  from repeat_spin[of "repeat 4 spin_phase_step" MOTOR_STEPS_PER_CYCLE s,
      OF repeat_spin[of spin_phase_step 4, OF spin_phase_step_rel]]
  obtain s1 where s1: "repeat MOTOR_STEPS_PER_CYCLE (repeat 4 spin_phase_step) s = Some s1" "spin_rel s s1"
    by blast
  have "spin_rel s1 (motor_stop s1)"
    unfolding spin_rel_def motor_stop_def emit_def
    by (rule exI[of _ "clock s1"], rule exI[of _ "[EvMotorStop]"], rule exI[of _ "spin_phase s1"]) simp
  then show ?thesis using s1 spin_rel_trans by (auto simp: motor_spin_one_cycle_def)
qed

lemma run_motor_test_cycles_rel: "\<exists>s'. run_motor_test_cycles n s = Some s' \<and> spin_rel s s'"
proof -
  have b: "\<exists>s'. (case motor_spin_one_cycle s of None \<Rightarrow> None | Some s \<Rightarrow> Some (usleep 500000 s)) = Some s'
        \<and> spin_rel s s'" for s
  proof -
    from motor_spin_one_cycle_rel[of s] obtain s1 where s1: "motor_spin_one_cycle s = Some s1" "spin_rel s s1"
      by blast
    have "spin_rel s1 (usleep 500000 s1)"
      unfolding spin_rel_def usleep_def
      by (rule exI[of _ "clock s1 + 500000"], rule exI[of _ "[]"], rule exI[of _ "spin_phase s1"]) simp
    then show ?thesis using s1 spin_rel_trans by auto
  qed
  show ?thesis unfolding run_motor_test_cycles_def Let_def
    by (rule repeat_spin[OF b])
qed

lemma leaf_enter_svc_motor_cyc:
  assumes "inv x" "st x = ST_SVC_MOTOR_CYC"
  shows "\<exists>x'. enter_svc_motor_cyc x = Some x' \<and> inv x' \<and> changes_ok t k x x' \<and> items x' = items x"
proof (cases "length (svcbuf x) = 0 \<or> atoi (svcbuf x) < 1 \<or> atoi (svcbuf x) > 15")
  case True
  then show ?thesis using assms
    by (auto simp add: enter_svc_motor_cyc_def invs ops Let_def)
next
  case False
  from run_motor_test_cycles_rel[of "atoi (svcbuf x)" "lcd_print2 x"] obtain x1 c ev p where
    x1: "run_motor_test_cycles (atoi (svcbuf x)) (lcd_print2 x) = Some x1"
        "x1 = (lcd_print2 x)\<lparr>clock := c, out := ev @ out (lcd_print2 x), spin_phase := p\<rparr>"
    unfolding spin_rel_def by blast
  have "enter_svc_motor_cyc x = Some (lcd_print2 (show_image IMG_MOTOR ((beep_success x1)\<lparr>svcbuf := []\<rparr>)))"
    using False x1(1) by (simp add: enter_svc_motor_cyc_def Let_def)
  then show ?thesis using assms unfolding x1(2)
    by (simp add: invs ops Let_def)
qed

lemma leaf_enter_svc_dispense_amt:
  assumes "inv x" "st x = ST_SVC_DISPENSE_AMT"
  shows "\<exists>x'. enter_svc_dispense_amt x = Some x' \<and> inv x' \<and> changes_ok t k x x' \<and> items x' = items x
    \<and> (length (svcbuf x) \<noteq> 0 \<and> 1 \<le> atoi (svcbuf x) \<and> atoi (svcbuf x) \<le> 15 \<longrightarrow> st x' = ST_SVC_MENU)"
proof (cases "length (svcbuf x) = 0 \<or> atoi (svcbuf x) < 1 \<or> atoi (svcbuf x) > 15")
  case True
  then show ?thesis using assms
    by (auto simp add: enter_svc_dispense_amt_def invs ops Let_def)
next
  case False
  let ?x0 = "(lcd_print2 x)\<lparr>gDispAnim := anim_start (gDispAnim (lcd_print2 x)\<lparr>oneshot_done := False, active := False\<rparr>)
        disp_frames DISP_N 1 DISP_FRAME_MS (now_ms (lcd_print2 x))\<rparr>"
  have l: "disp_live ?x0" by (rule disp_live_start)
  from dispense_burst_rel[OF l, of "nat (atoi (svcbuf x))"] obtain x1 where
    x1: "dispense_burst (nat (atoi (svcbuf x))) ?x0 = Some x1"
        "burst_rel (nat (atoi (svcbuf x)) * (TOTAL_STEPS_PER_ITEM * 4)) ?x0 x1" by blast
  let ?x' = "service_menu_screen ((usleep USLEEP_SVC_DONE_US (lcd_print2 (beep_success x1)))
       \<lparr>st := ST_SVC_MENU, svcbuf := [], svc_disp_slot := - 1\<rparr>)"
  have e: "enter_svc_dispense_amt x = Some ?x'"
    using False x1(1) by (simp add: enter_svc_dispense_amt_def Let_def ops)
  have "inv ?x' \<and> changes_ok t k x ?x' \<and> items ?x' = items x \<and> st ?x' = ST_SVC_MENU"
    using assms burst_rel_fields[OF x1(2)]
    by (simp add: invs ops Let_def)
  then show ?thesis using e by simp
qed

lemma leaf_dispensing:
  assumes "inv x" "st x = ST_DISPENSING"
  shows "\<exists>x'. dispensing x = Some x' \<and> inv x' \<and> changes_ok t k x x' \<and> st x' = ST_MENU"
proof -
  have a: "\<not> active (gDispAnim x)" "\<not> oneshot_done (gDispAnim x)" "valid_slot (items x) (chosen_slot x)"
       "1 \<le> amount x" "amount x \<le> MAX_COUNT" "stocks_ok (items x)"
    using assms by (simp_all add: inv_def)
  let ?x0 = "x\<lparr>gDispAnim := anim_start (gDispAnim x) disp_frames DISP_N 1 DISP_FRAME_MS (now_ms x)\<rparr>"
  have l: "disp_live ?x0" by (rule disp_live_start)
  from dispense_burst_rel[OF l, of "nat (amount x)"] obtain x1 where
    x1: "dispense_burst (nat (amount x)) ?x0 = Some x1"
        "burst_rel (nat (amount x) * (TOTAL_STEPS_PER_ITEM * 4)) ?x0 x1" by blast
  note f = burst_rel_fields[OF x1(2)]
  let ?v = "stock (items x ! nat (chosen_slot x)) - amount x"
  let ?v' = "if ?v < 0 then 0 else ?v"
  have "nat (chosen_slot x) < length (items x)"
    using a(3) unfolding valid_slot_def by linarith
  then have "items x ! nat (chosen_slot x) \<in> set (items x)"
    by (rule nth_mem)
  then have "stock (items x ! nat (chosen_slot x)) \<le> MAX_COUNT"
    using a(6) by (simp add: stocks_ok_def list_all_iff)
  then have v: "0 \<le> ?v'" "?v' \<le> MAX_COUNT" using a(4) by (auto simp: MAX_COUNT_def)
  have so: "stocks_ok (set_stock (chosen_slot x) ?v' (items x))"
    by (rule stocks_ok_set_stock[OF a(6) v])
  let ?x2 = "usleep USLEEP_SUCCESS_SCREEN_US (beep_success (lcd_print2 (show_image IMG_THANKS x1)))"
  let ?x3 = "timer_stop_and_blank (?x2\<lparr>items := set_stock (chosen_slot x) ?v' (items x),
        st := ST_MENU, chosen_slot := - 1, amount := 0,
        pay_zero_count := 0, selbuf := [], amtbuf := [], index_timer_active := False\<rparr>)"
  let ?x' = "menu_screen (?x3\<lparr>gDispAnim := (gDispAnim ?x3)\<lparr>oneshot_done := False\<rparr>\<rparr>)"
  have e: "dispensing x = Some ?x'"
    using a(1,2,3) x1(1) f(4,8,9)
    by (simp add: dispensing_def Let_def ops)
  have w: "wf_anim ((gDispAnim x1)\<lparr>oneshot_done := False\<rparr>)"
    using f(18) by (simp add: wf_anim_def)
  have "inv ?x' \<and> changes_ok t k x ?x' \<and> st ?x' = ST_MENU"
    using assms f so w
    by (simp add: invs ops Let_def)
  then show ?thesis using e by simp
qed

lemma changes_ok_ui: "ui_rel x z \<Longrightarrow> changes_ok t k z x' \<Longrightarrow> changes_ok t k x x'"
  using ui_rel_fields(1,2,3,5,13,14)[of x z]
  by (auto simp add: changes_ok_def svc_gate_expired_def return_gate_expired_def)

lemma leaf_key_enter:
  assumes "inv z"
  shows "\<exists>x'. key_enter z = Some x' \<and> inv x' \<and> changes_ok t KEY_ENTER z x'"
proof (cases "service_mode z")
  case False
  consider "st z = ST_MENU" | "st z = ST_AMOUNT" | "st z \<noteq> ST_MENU" "st z \<noteq> ST_AMOUNT" by blast
  then show ?thesis
  proof cases
    case 1
    with leaf_enter_menu[OF assms 1, of t] False show ?thesis by (auto simp: key_enter_def)
  next
    case 2
    with leaf_enter_amount[OF assms 2, of t KEY_ENTER] False show ?thesis by (auto simp: key_enter_def)
  next
    case 3
    with leaf_beep_error[OF assms, of t KEY_ENTER] False show ?thesis by (auto simp: key_enter_def)
  qed
next
  case True
  consider "st z = ST_SVC_MENU" | "st z = ST_SVC_DISPENSE_IDX" | "st z = ST_SVC_DISPENSE_AMT"
    | "st z = ST_SVC_RESTOCK_IDX" | "st z = ST_SVC_RESTOCK_QTY" | "st z = ST_SVC_SOUND_SEL"
    | "st z = ST_SVC_MOTOR_CYC"
    | "st z \<noteq> ST_SVC_MENU" "st z \<noteq> ST_SVC_DISPENSE_IDX" "st z \<noteq> ST_SVC_DISPENSE_AMT"
      "st z \<noteq> ST_SVC_RESTOCK_IDX" "st z \<noteq> ST_SVC_RESTOCK_QTY" "st z \<noteq> ST_SVC_SOUND_SEL"
      "st z \<noteq> ST_SVC_MOTOR_CYC" by blast
  then show ?thesis
  proof cases
    case 1
    with leaf_enter_svc_menu[OF assms 1, of t] True show ?thesis by (auto simp: key_enter_def)
  next
    case 2
    with leaf_enter_svc_dispense_idx[OF assms 2, of t KEY_ENTER] True show ?thesis by (auto simp: key_enter_def)
  next
    case 3
    with leaf_enter_svc_dispense_amt[OF assms 3, of t KEY_ENTER] True show ?thesis by (auto simp: key_enter_def)
  next
    case 4
    with leaf_enter_svc_restock_idx[OF assms 4, of t KEY_ENTER] True show ?thesis by (auto simp: key_enter_def)
  next
    case 5
    with leaf_enter_svc_restock_qty[OF assms 5, of t KEY_ENTER] True show ?thesis by (auto simp: key_enter_def)
  next
    case 6
    with leaf_enter_svc_sound_sel[OF assms 6, of t KEY_ENTER] True show ?thesis by (auto simp: key_enter_def)
  next
    case 7
    with leaf_enter_svc_motor_cyc[OF assms 7, of t KEY_ENTER] True show ?thesis by (auto simp: key_enter_def)
  next
    case 8
    with leaf_beep_error[OF assms, of t KEY_ENTER] True show ?thesis by (auto simp: key_enter_def)
  qed
qed

lemma leaf_dispatch:
  assumes "inv z" "k \<noteq> NO_KEY" "\<not> svc_gate_expired t z"
  shows "\<exists>x'. dispatch k z = Some x' \<and> inv x' \<and> changes_ok t k z x'"
proof -
  consider "st z = ST_SVC_GATE" | "st z = ST_RETURN_GATE"
    | "st z \<noteq> ST_SVC_GATE" "st z \<noteq> ST_RETURN_GATE" "k = KEY_BACK"
    | "st z \<noteq> ST_SVC_GATE" "st z \<noteq> ST_RETURN_GATE" "k \<noteq> KEY_BACK" "isdigit k"
    | "st z \<noteq> ST_SVC_GATE" "st z \<noteq> ST_RETURN_GATE" "k \<noteq> KEY_BACK" "\<not> isdigit k" "k = KEY_ENTER"
    | "st z \<noteq> ST_SVC_GATE" "st z \<noteq> ST_RETURN_GATE" "k \<noteq> KEY_BACK" "\<not> isdigit k" "k \<noteq> KEY_ENTER"
    by blast
  then show ?thesis
  proof cases
    case 1
    with leaf_svc_gate_confirm[OF assms(1) 1 assms(2,3)] show ?thesis by (simp add: dispatch_def)
  next
    case 2
    with leaf_return_gate_confirm[OF assms(1) 2, of t k] show ?thesis by (simp add: dispatch_def)
  next
    case 3
    with leaf_key_back[OF assms(1) 3(1,2), of t k] show ?thesis by (simp add: dispatch_def)
  next
    case 4
    with leaf_key_digit[OF assms(1), of k t] show ?thesis by (auto simp add: dispatch_def)
  next
    case 5
    with leaf_key_enter[OF assms(1), of t] show ?thesis by (auto simp add: dispatch_def)
  next
    case 6
    with leaf_beep_error[OF assms(1), of t k] show ?thesis by (simp add: dispatch_def)
  qed
qed

lemma svc_gate_expired_ui: "ui_rel x z \<Longrightarrow> svc_gate_expired t z = svc_gate_expired t x"
  using ui_rel_fields[of x z] by (simp add: svc_gate_expired_def)

lemma return_gate_expired_ui: "ui_rel x z \<Longrightarrow> return_gate_expired t z = return_gate_expired t x"
  using ui_rel_fields[of x z] by (simp add: return_gate_expired_def)

lemma leaf_scan_and_dispatch:
  assumes "inv y" "\<not> svc_gate_expired t y"
  shows "\<exists>x'. scan_and_dispatch k hold y = Some x' \<and> inv x' \<and> changes_ok t k y x'"
proof (cases "k = NO_KEY")
  case True
  have "inv (usleep 20000 y) \<and> changes_ok t k y (usleep 20000 y)"
    using assms(1) by (simp add: invs ops)
  then show ?thesis using True by (simp add: scan_and_dispatch_def)
next
  case False
  let ?z = "wait_key_release hold (beep_keypress y)"
  have u1: "ui_rel y (beep_keypress y)" by (rule ui_rel_beep_keypress[OF assms(1)])
  have u: "ui_rel y ?z"
    by (rule ui_rel_trans[OF u1 ui_rel_wait_key_release[OF ui_rel_inv[OF assms(1) u1]]])
  have i: "inv ?z" by (rule ui_rel_inv[OF assms(1) u])
  have g: "\<not> svc_gate_expired t ?z" using assms(2) svc_gate_expired_ui[OF u] by simp
  from leaf_dispatch[OF i False g] obtain x' where
    "dispatch k ?z = Some x'" "inv x'" "changes_ok t k ?z x'" by blast
  then show ?thesis using False changes_ok_ui[OF u] by (auto simp add: scan_and_dispatch_def)
qed

lemma leaf_after_timers:
  assumes "inv y" "\<not> svc_gate_expired t y"
  shows "\<exists>x'. after_timers k hold y = Some x' \<and> inv x' \<and> changes_ok t k y x'"
proof (cases "st y = ST_DISPENSING")
  case True
  with leaf_dispensing[OF assms(1) True, of t k] show ?thesis by (auto simp: after_timers_def)
next
  case False
  with leaf_scan_and_dispatch[OF assms, of k hold] show ?thesis by (simp add: after_timers_def)
qed

lemma leaf_after_timers_ui:
  assumes "inv x" "\<not> svc_gate_expired t x" "ui_rel x y"
  shows "\<exists>x'. after_timers k hold y = Some x' \<and> inv x' \<and> changes_ok t k x x'"
proof -
  have i: "inv y" by (rule ui_rel_inv[OF assms(1,3)])
  have g: "\<not> svc_gate_expired t y" using assms(2) svc_gate_expired_ui[OF assms(3)] by simp
  from leaf_after_timers[OF i g, of k hold] changes_ok_ui[OF assms(3)] show ?thesis by blast
qed

lemma leaf_timers_and_keys:
  assumes "inv x"
  shows "\<exists>x'. timers_and_keys t k hold x = Some x' \<and> inv x' \<and> changes_ok t k x x'"
proof -
  consider "svc_gate_expired t x" | "\<not> svc_gate_expired t x" "return_gate_expired t x"
    | "\<not> svc_gate_expired t x" "\<not> return_gate_expired t x" "service_mode x"
    | "\<not> svc_gate_expired t x" "\<not> return_gate_expired t x" "\<not> service_mode x" "timer_active x"
      "timer_seconds_left (idle_deadline x) t = 0"
    | "\<not> svc_gate_expired t x" "\<not> return_gate_expired t x" "\<not> service_mode x" "timer_active x"
      "timer_seconds_left (idle_deadline x) t \<noteq> 0"
    | "\<not> svc_gate_expired t x" "\<not> return_gate_expired t x" "\<not> service_mode x" "\<not> timer_active x"
    by blast
  then show ?thesis
  proof cases
    case 1
    with leaf_svc_gate_timeout[OF assms 1, of k] show ?thesis by (simp add: timers_and_keys_eq)
  next
    case 2
    with leaf_return_gate_timeout[OF assms 2(2), of k] show ?thesis by (simp add: timers_and_keys_eq)
  next
    case 3
    with leaf_after_timers_ui[OF assms 3(1) ui_rel_service_blink_tick[OF assms], of k hold t]
    show ?thesis by (simp add: timers_and_keys_eq)
  next
    case 4
    let ?y = "timer_update_display t x"
    have u: "ui_rel x ?y" by (rule ui_rel_timer_update_display[OF assms])
    have i: "inv ?y" by (rule ui_rel_inv[OF assms u])
    have "\<not> service_mode ?y" using 4(3) by simp
    from leaf_idle_timeout[OF i this, of t k] changes_ok_ui[OF u] 4
    show ?thesis by (simp add: timers_and_keys_eq)
  next
    case 5
    with leaf_after_timers_ui[OF assms 5(1) ui_rel_timer_update_display[OF assms], of k hold t]
    show ?thesis by (simp add: timers_and_keys_eq)
  next
    case 6
    with leaf_after_timers[OF assms 6(1), of k hold] show ?thesis by (simp add: timers_and_keys_eq)
  qed
qed

lemma door_transitions_cases:
  assumes "inv x"
  shows "inv (door_transitions x)
    \<and> port_mapping (door_transitions x) = port_mapping x
    \<and> ((door_transitions x = x \<and> \<not> (st x = ST_DOOR_CLOSING \<and> oneshot_done (gDoorAnim x)))
       \<or> (selbuf (door_transitions x) = []
           \<and> (st (door_transitions x) = ST_SVC_MENU \<or> st (door_transitions x) = ST_MENU)
           \<and> ((st x = ST_DOOR_OPENING \<and> service_mode (door_transitions x) = service_mode x)
              \<or> (st x = ST_DOOR_CLOSING \<and> oneshot_done (gDoorAnim x)
                  \<and> \<not> service_mode (door_transitions x)))))"
  using assms
  by (simp add: door_transitions_def door_opening_done_def door_closing_done_def invs ops Let_def)

lemma init_inv: "inv (init c fs)"
  by (simp add: init_def power_on_def inv_def wf_anim_def zero_anim_def stocks_ok_def
      catalog_def customer_state_def valid_slot_def MAX_COUNT_def ops)

lemma step_total:
  assumes "inv s"
  shows "\<exists>s'. step k hold s = Some s' \<and> inv s'
    \<and> (service_mode s' \<noteq> service_mode s \<longrightarrow>
           (st s = ST_SVC_GATE \<and> k \<noteq> NO_KEY \<and> \<not> svc_gate_expired (now_ms s) s
              \<and> service_mode s' \<and> st s' = ST_DOOR_OPENING)
         \<or> (st s = ST_DOOR_CLOSING \<and> door_completes s \<and> \<not> service_mode s'))
    \<and> (port_mapping s' \<noteq> port_mapping s \<longrightarrow>
           (st s = ST_MENU \<and> k = KEY_ENTER \<and> selbuf s = ''1234'' \<and> st s' = ST_SVC_GATE)
         \<or> (st s = ST_SVC_MENU \<and> k = KEY_ENTER \<and> selbuf s = ''1234'' \<and> st s' = ST_RETURN_GATE)
         \<or> svc_gate_expired (now_ms s) s \<or> return_gate_expired (now_ms s) s)
    \<and> (st s = ST_DOOR_OPENING \<longrightarrow>
           service_mode s' = service_mode s \<and> port_mapping s' = port_mapping s)"
proof -
  from step_decomp[OF assms] obtain s2 where
    s2: "ui_rel s s2" "oneshot_done (gDoorAnim s2) \<longleftrightarrow> door_completes s"
        "\<And>k hold. step k hold s = pass_body (now_ms s) k hold s2" by blast
  have i2: "inv s2" by (rule ui_rel_inv[OF assms s2(1)])
  let ?y = "door_transitions s2"
  note f = ui_rel_fields(1,2,3,5,13,14)[OF s2(1)]
  from door_transitions_cases[OF i2] have
    d: "inv ?y" "port_mapping ?y = port_mapping s2"
     "(?y = s2 \<and> \<not> (st s2 = ST_DOOR_CLOSING \<and> oneshot_done (gDoorAnim s2)))
       \<or> (selbuf ?y = [] \<and> (st ?y = ST_SVC_MENU \<or> st ?y = ST_MENU)
           \<and> ((st s2 = ST_DOOR_OPENING \<and> service_mode ?y = service_mode s2)
              \<or> (st s2 = ST_DOOR_CLOSING \<and> oneshot_done (gDoorAnim s2) \<and> \<not> service_mode ?y)))"
    by blast+
  from leaf_timers_and_keys[OF d(1), of "now_ms s" k hold] obtain s' where
    s': "timers_and_keys (now_ms s) k hold ?y = Some s'" "inv s'" "changes_ok (now_ms s) k ?y s'"
    by blast
  have e: "step k hold s = Some s'" using s2(3) s'(1) by (simp add: pass_body_def)
  from d(3) show ?thesis
  proof
    assume a: "?y = s2 \<and> \<not> (st s2 = ST_DOOR_CLOSING \<and> oneshot_done (gDoorAnim s2))"
    then have "changes_ok (now_ms s) k s2 s'" using s'(3) by simp
    then have c: "changes_ok (now_ms s) k s s'" by (rule changes_ok_ui[OF s2(1)])
    show ?thesis
      apply (rule exI[of _ s'])
      using e s'(2) c
      by (auto simp: changes_ok_def svc_gate_expired_def return_gate_expired_def)
  next
    assume a: "selbuf ?y = [] \<and> (st ?y = ST_SVC_MENU \<or> st ?y = ST_MENU)
           \<and> ((st s2 = ST_DOOR_OPENING \<and> service_mode ?y = service_mode s2)
              \<or> (st s2 = ST_DOOR_CLOSING \<and> oneshot_done (gDoorAnim s2) \<and> \<not> service_mode ?y))"
    then have q: "service_mode s' = service_mode ?y" "port_mapping s' = port_mapping ?y"
      using s'(3) by (auto simp: changes_ok_def svc_gate_expired_def return_gate_expired_def)
    show ?thesis
      apply (rule exI[of _ s'])
      using e s'(2) q a d(2) f s2(2)
      by auto
  qed
qed

lemma reachable_inv: "reachable s \<Longrightarrow> inv s"
proof (induction rule: reachable.induct)
  case (reach_init c fs)
  show ?case by (rule init_inv)
next
  case (reach_step s k hold s')
  from step_total[OF reach_step.IH, of k hold] reach_step.hyps(2) show ?case by auto
qed

section \<open>What the drivers leave unchanged\<close>

text \<open>
  The drivers (images, LCD, tones, sleeps, the indicator, the port mapping) do not touch the
  state of the dialogue, the catalog or the flags of the countdown.
\<close>

named_theorems sels

lemma sel_st [sels]:
  "st (usleep n s) = st s"
  "st (emit e s) = st s"
  "st (show_image p s) = st s"
  "st (lcd_print2 s) = st s"
  "st (beep_square d hp hi lo s) = st s"
  "st (beep_keypress s) = st s"
  "st (beep_error s) = st s"
  "st (beep_success s) = st s"
  "st (beep_payment_ok s) = st s"
  "st (beep_dispensing_slot n s) = st s"
  "st (menu_screen s) = st s"
  "st (service_menu_screen s) = st s"
  "st (show_service_gate_prompt s) = st s"
  "st (show_return_gate_prompt s) = st s"
  "st (error_screen n s) = st s"
  "st (svc_digit_screen s) = st s"
  "st (play_sound n s) = st s"
  "st (set_port_mapping b s) = st s"
  "st (service_blink_reset s) = st s"
  "st (wait_key_release hold s) = st s"
  "st (seg_blank s) = st s"
  "st (seg_show_digit d s) = st s"
  "st (timer_stop_and_blank s) = st s"
  "st (timer_start_or_reset s) = st s"
  "st (motor_stop s) = st s"
  by (simp_all add: ops svc_digit_screen_def play_sound_def beep_dispensing_slot_def motor_stop_def seg_show_digit_eq)

lemma sel_amount [sels]:
  "amount (usleep n s) = amount s"
  "amount (emit e s) = amount s"
  "amount (show_image p s) = amount s"
  "amount (lcd_print2 s) = amount s"
  "amount (beep_square d hp hi lo s) = amount s"
  "amount (beep_keypress s) = amount s"
  "amount (beep_error s) = amount s"
  "amount (beep_success s) = amount s"
  "amount (beep_payment_ok s) = amount s"
  "amount (beep_dispensing_slot n s) = amount s"
  "amount (menu_screen s) = amount s"
  "amount (service_menu_screen s) = amount s"
  "amount (show_service_gate_prompt s) = amount s"
  "amount (show_return_gate_prompt s) = amount s"
  "amount (error_screen n s) = amount s"
  "amount (svc_digit_screen s) = amount s"
  "amount (play_sound n s) = amount s"
  "amount (set_port_mapping b s) = amount s"
  "amount (service_blink_reset s) = amount s"
  "amount (wait_key_release hold s) = amount s"
  "amount (seg_blank s) = amount s"
  "amount (seg_show_digit d s) = amount s"
  "amount (timer_stop_and_blank s) = amount s"
  "amount (timer_start_or_reset s) = amount s"
  "amount (motor_stop s) = amount s"
  by (simp_all add: ops svc_digit_screen_def play_sound_def beep_dispensing_slot_def motor_stop_def seg_show_digit_eq)

lemma sel_chosen_slot [sels]:
  "chosen_slot (usleep n s) = chosen_slot s"
  "chosen_slot (emit e s) = chosen_slot s"
  "chosen_slot (show_image p s) = chosen_slot s"
  "chosen_slot (lcd_print2 s) = chosen_slot s"
  "chosen_slot (beep_square d hp hi lo s) = chosen_slot s"
  "chosen_slot (beep_keypress s) = chosen_slot s"
  "chosen_slot (beep_error s) = chosen_slot s"
  "chosen_slot (beep_success s) = chosen_slot s"
  "chosen_slot (beep_payment_ok s) = chosen_slot s"
  "chosen_slot (beep_dispensing_slot n s) = chosen_slot s"
  "chosen_slot (menu_screen s) = chosen_slot s"
  "chosen_slot (service_menu_screen s) = chosen_slot s"
  "chosen_slot (show_service_gate_prompt s) = chosen_slot s"
  "chosen_slot (show_return_gate_prompt s) = chosen_slot s"
  "chosen_slot (error_screen n s) = chosen_slot s"
  "chosen_slot (svc_digit_screen s) = chosen_slot s"
  "chosen_slot (play_sound n s) = chosen_slot s"
  "chosen_slot (set_port_mapping b s) = chosen_slot s"
  "chosen_slot (service_blink_reset s) = chosen_slot s"
  "chosen_slot (wait_key_release hold s) = chosen_slot s"
  "chosen_slot (seg_blank s) = chosen_slot s"
  "chosen_slot (seg_show_digit d s) = chosen_slot s"
  "chosen_slot (timer_stop_and_blank s) = chosen_slot s"
  "chosen_slot (timer_start_or_reset s) = chosen_slot s"
  "chosen_slot (motor_stop s) = chosen_slot s"
  by (simp_all add: ops svc_digit_screen_def play_sound_def beep_dispensing_slot_def motor_stop_def seg_show_digit_eq)

lemma sel_items [sels]:
  "items (usleep n s) = items s"
  "items (emit e s) = items s"
  "items (show_image p s) = items s"
  "items (lcd_print2 s) = items s"
  "items (beep_square d hp hi lo s) = items s"
  "items (beep_keypress s) = items s"
  "items (beep_error s) = items s"
  "items (beep_success s) = items s"
  "items (beep_payment_ok s) = items s"
  "items (beep_dispensing_slot n s) = items s"
  "items (menu_screen s) = items s"
  "items (service_menu_screen s) = items s"
  "items (show_service_gate_prompt s) = items s"
  "items (show_return_gate_prompt s) = items s"
  "items (error_screen n s) = items s"
  "items (svc_digit_screen s) = items s"
  "items (play_sound n s) = items s"
  "items (set_port_mapping b s) = items s"
  "items (service_blink_reset s) = items s"
  "items (wait_key_release hold s) = items s"
  "items (seg_blank s) = items s"
  "items (seg_show_digit d s) = items s"
  "items (timer_stop_and_blank s) = items s"
  "items (timer_start_or_reset s) = items s"
  "items (motor_stop s) = items s"
  by (simp_all add: ops svc_digit_screen_def play_sound_def beep_dispensing_slot_def motor_stop_def seg_show_digit_eq)

lemma sel_svcbuf [sels]:
  "svcbuf (usleep n s) = svcbuf s"
  "svcbuf (emit e s) = svcbuf s"
  "svcbuf (show_image p s) = svcbuf s"
  "svcbuf (lcd_print2 s) = svcbuf s"
  "svcbuf (beep_square d hp hi lo s) = svcbuf s"
  "svcbuf (beep_keypress s) = svcbuf s"
  "svcbuf (beep_error s) = svcbuf s"
  "svcbuf (beep_success s) = svcbuf s"
  "svcbuf (beep_payment_ok s) = svcbuf s"
  "svcbuf (beep_dispensing_slot n s) = svcbuf s"
  "svcbuf (menu_screen s) = svcbuf s"
  "svcbuf (service_menu_screen s) = svcbuf s"
  "svcbuf (show_service_gate_prompt s) = svcbuf s"
  "svcbuf (show_return_gate_prompt s) = svcbuf s"
  "svcbuf (error_screen n s) = svcbuf s"
  "svcbuf (svc_digit_screen s) = svcbuf s"
  "svcbuf (play_sound n s) = svcbuf s"
  "svcbuf (set_port_mapping b s) = svcbuf s"
  "svcbuf (service_blink_reset s) = svcbuf s"
  "svcbuf (wait_key_release hold s) = svcbuf s"
  "svcbuf (seg_blank s) = svcbuf s"
  "svcbuf (seg_show_digit d s) = svcbuf s"
  "svcbuf (timer_stop_and_blank s) = svcbuf s"
  "svcbuf (timer_start_or_reset s) = svcbuf s"
  "svcbuf (motor_stop s) = svcbuf s"
  by (simp_all add: ops svc_digit_screen_def play_sound_def beep_dispensing_slot_def motor_stop_def seg_show_digit_eq)

lemma sel_restock_slot [sels]:
  "restock_slot (usleep n s) = restock_slot s"
  "restock_slot (emit e s) = restock_slot s"
  "restock_slot (show_image p s) = restock_slot s"
  "restock_slot (lcd_print2 s) = restock_slot s"
  "restock_slot (beep_square d hp hi lo s) = restock_slot s"
  "restock_slot (beep_keypress s) = restock_slot s"
  "restock_slot (beep_error s) = restock_slot s"
  "restock_slot (beep_success s) = restock_slot s"
  "restock_slot (beep_payment_ok s) = restock_slot s"
  "restock_slot (beep_dispensing_slot n s) = restock_slot s"
  "restock_slot (menu_screen s) = restock_slot s"
  "restock_slot (service_menu_screen s) = restock_slot s"
  "restock_slot (show_service_gate_prompt s) = restock_slot s"
  "restock_slot (show_return_gate_prompt s) = restock_slot s"
  "restock_slot (error_screen n s) = restock_slot s"
  "restock_slot (svc_digit_screen s) = restock_slot s"
  "restock_slot (play_sound n s) = restock_slot s"
  "restock_slot (set_port_mapping b s) = restock_slot s"
  "restock_slot (service_blink_reset s) = restock_slot s"
  "restock_slot (wait_key_release hold s) = restock_slot s"
  "restock_slot (seg_blank s) = restock_slot s"
  "restock_slot (seg_show_digit d s) = restock_slot s"
  "restock_slot (timer_stop_and_blank s) = restock_slot s"
  "restock_slot (timer_start_or_reset s) = restock_slot s"
  "restock_slot (motor_stop s) = restock_slot s"
  by (simp_all add: ops svc_digit_screen_def play_sound_def beep_dispensing_slot_def motor_stop_def seg_show_digit_eq)

lemma sel_service_mode [sels]:
  "service_mode (usleep n s) = service_mode s"
  "service_mode (emit e s) = service_mode s"
  "service_mode (show_image p s) = service_mode s"
  "service_mode (lcd_print2 s) = service_mode s"
  "service_mode (beep_square d hp hi lo s) = service_mode s"
  "service_mode (beep_keypress s) = service_mode s"
  "service_mode (beep_error s) = service_mode s"
  "service_mode (beep_success s) = service_mode s"
  "service_mode (beep_payment_ok s) = service_mode s"
  "service_mode (beep_dispensing_slot n s) = service_mode s"
  "service_mode (menu_screen s) = service_mode s"
  "service_mode (service_menu_screen s) = service_mode s"
  "service_mode (show_service_gate_prompt s) = service_mode s"
  "service_mode (show_return_gate_prompt s) = service_mode s"
  "service_mode (error_screen n s) = service_mode s"
  "service_mode (svc_digit_screen s) = service_mode s"
  "service_mode (play_sound n s) = service_mode s"
  "service_mode (set_port_mapping b s) = service_mode s"
  "service_mode (service_blink_reset s) = service_mode s"
  "service_mode (wait_key_release hold s) = service_mode s"
  "service_mode (seg_blank s) = service_mode s"
  "service_mode (seg_show_digit d s) = service_mode s"
  "service_mode (timer_stop_and_blank s) = service_mode s"
  "service_mode (timer_start_or_reset s) = service_mode s"
  "service_mode (motor_stop s) = service_mode s"
  by (simp_all add: ops svc_digit_screen_def play_sound_def beep_dispensing_slot_def motor_stop_def seg_show_digit_eq)


lemma sel_index_timer_active [sels]:
  "index_timer_active (usleep n s) = index_timer_active s"
  "index_timer_active (emit e s) = index_timer_active s"
  "index_timer_active (show_image p s) = index_timer_active s"
  "index_timer_active (lcd_print2 s) = index_timer_active s"
  "index_timer_active (beep_square d hp hi lo s) = index_timer_active s"
  "index_timer_active (beep_keypress s) = index_timer_active s"
  "index_timer_active (beep_error s) = index_timer_active s"
  "index_timer_active (beep_success s) = index_timer_active s"
  "index_timer_active (beep_payment_ok s) = index_timer_active s"
  "index_timer_active (beep_dispensing_slot n s) = index_timer_active s"
  "index_timer_active (menu_screen s) = index_timer_active s"
  "index_timer_active (service_menu_screen s) = index_timer_active s"
  "index_timer_active (show_service_gate_prompt s) = index_timer_active s"
  "index_timer_active (show_return_gate_prompt s) = index_timer_active s"
  "index_timer_active (error_screen n s) = index_timer_active s"
  "index_timer_active (svc_digit_screen s) = index_timer_active s"
  "index_timer_active (play_sound n s) = index_timer_active s"
  "index_timer_active (set_port_mapping b s) = index_timer_active s"
  "index_timer_active (service_blink_reset s) = index_timer_active s"
  "index_timer_active (wait_key_release hold s) = index_timer_active s"
  "index_timer_active (seg_blank s) = index_timer_active s"
  "index_timer_active (seg_show_digit d s) = index_timer_active s"
  "index_timer_active (timer_stop_and_blank s) = index_timer_active s"
  "index_timer_active (timer_start_or_reset s) = index_timer_active s"
  "index_timer_active (motor_stop s) = index_timer_active s"
  by (simp_all add: ops svc_digit_screen_def play_sound_def beep_dispensing_slot_def motor_stop_def seg_show_digit_eq)

lemma sel_idle_deadline [sels]:
  "idle_deadline (usleep n s) = idle_deadline s"
  "idle_deadline (emit e s) = idle_deadline s"
  "idle_deadline (show_image p s) = idle_deadline s"
  "idle_deadline (lcd_print2 s) = idle_deadline s"
  "idle_deadline (beep_square d hp hi lo s) = idle_deadline s"
  "idle_deadline (beep_keypress s) = idle_deadline s"
  "idle_deadline (beep_error s) = idle_deadline s"
  "idle_deadline (beep_success s) = idle_deadline s"
  "idle_deadline (beep_payment_ok s) = idle_deadline s"
  "idle_deadline (beep_dispensing_slot n s) = idle_deadline s"
  "idle_deadline (menu_screen s) = idle_deadline s"
  "idle_deadline (service_menu_screen s) = idle_deadline s"
  "idle_deadline (show_service_gate_prompt s) = idle_deadline s"
  "idle_deadline (show_return_gate_prompt s) = idle_deadline s"
  "idle_deadline (error_screen n s) = idle_deadline s"
  "idle_deadline (svc_digit_screen s) = idle_deadline s"
  "idle_deadline (play_sound n s) = idle_deadline s"
  "idle_deadline (set_port_mapping b s) = idle_deadline s"
  "idle_deadline (service_blink_reset s) = idle_deadline s"
  "idle_deadline (wait_key_release hold s) = idle_deadline s"
  "idle_deadline (seg_blank s) = idle_deadline s"
  "idle_deadline (seg_show_digit d s) = idle_deadline s"
  "idle_deadline (motor_stop s) = idle_deadline s"
  by (simp_all add: ops svc_digit_screen_def play_sound_def beep_dispensing_slot_def motor_stop_def seg_show_digit_eq)

lemmas uconst = USLEEP_ERR_SHORT_US_def USLEEP_ERR_LONG_US_def USLEEP_SUCCESS_SCREEN_US_def
  USLEEP_SVC_DONE_US_def USLEEP_OOS_SCREEN_US_def


section \<open>The countdown deadline stays within reach\<close>

text \<open>
  Every driver and every branch of a pass keeps \<open>timer_ok\<close>: the clock moves forward, and
  the deadline is kept, cleared or set to the current reading plus \<open>IDLE_MS\<close>.
\<close>

named_theorems tok

lemma timer_ok_upd [tok]:
    "timer_ok (s\<lparr>files := v0\<rparr>) = timer_ok s"
    "timer_ok (s\<lparr>out := v1\<rparr>) = timer_ok s"
    "timer_ok (s\<lparr>gLedPort := v2\<rparr>) = timer_ok s"
    "timer_ok (s\<lparr>gLcdPort := v3\<rparr>) = timer_ok s"
    "timer_ok (s\<lparr>gSmPort := v4\<rparr>) = timer_ok s"
    "timer_ok (s\<lparr>gKbdPort := v5\<rparr>) = timer_ok s"
    "timer_ok (s\<lparr>pqiv_count := v6\<rparr>) = timer_ok s"
    "timer_ok (s\<lparr>gDoorAnim := v7\<rparr>) = timer_ok s"
    "timer_ok (s\<lparr>gDispAnim := v8\<rparr>) = timer_ok s"
    "timer_ok (s\<lparr>last_shown := v9\<rparr>) = timer_ok s"
    "timer_ok (s\<lparr>svc_blink_next := v10\<rparr>) = timer_ok s"
    "timer_ok (s\<lparr>svc_blink_on := v11\<rparr>) = timer_ok s"
    "timer_ok (s\<lparr>phase := v12\<rparr>) = timer_ok s"
    "timer_ok (s\<lparr>spin_phase := v13\<rparr>) = timer_ok s"
    "timer_ok (s\<lparr>items := v14\<rparr>) = timer_ok s"
    "timer_ok (s\<lparr>st := v15\<rparr>) = timer_ok s"
    "timer_ok (s\<lparr>selbuf := v16\<rparr>) = timer_ok s"
    "timer_ok (s\<lparr>amtbuf := v17\<rparr>) = timer_ok s"
    "timer_ok (s\<lparr>svcbuf := v18\<rparr>) = timer_ok s"
    "timer_ok (s\<lparr>chosen_slot := v19\<rparr>) = timer_ok s"
    "timer_ok (s\<lparr>amount := v20\<rparr>) = timer_ok s"
    "timer_ok (s\<lparr>pay_zero_count := v21\<rparr>) = timer_ok s"
    "timer_ok (s\<lparr>index_timer_active := v22\<rparr>) = timer_ok s"
    "timer_ok (s\<lparr>service_mode := v23\<rparr>) = timer_ok s"
    "timer_ok (s\<lparr>svc_gate_deadline := v24\<rparr>) = timer_ok s"
    "timer_ok (s\<lparr>return_gate_deadline := v25\<rparr>) = timer_ok s"
    "timer_ok (s\<lparr>svc_disp_slot := v26\<rparr>) = timer_ok s"
    "timer_ok (s\<lparr>restock_slot := v27\<rparr>) = timer_ok s"
  by (simp_all add: timer_ok_def now_ms_def)

lemma timer_ok_later:
  assumes "timer_ok s" "clock s \<le> clock s'" "idle_deadline s' = idle_deadline s"
  shows "timer_ok s'"
proof -
  have "clock s div 1000 \<le> clock s' div 1000" using assms(2) by (rule zdiv_mono1) simp
  then show ?thesis using assms by (simp add: timer_ok_def now_ms_def)
qed

lemma timer_ok_usleep [tok]: "0 \<le> n \<Longrightarrow> timer_ok s \<Longrightarrow> timer_ok (usleep n s)"
  by (rule timer_ok_later[of s]) (simp_all add: usleep_def)

lemma timer_ok_show_image [tok]: "timer_ok s \<Longrightarrow> timer_ok (show_image p s)"
  by (rule timer_ok_later[of s]) (simp_all add: show_image_eq)

lemma timer_ok_lcd_print2 [tok]: "timer_ok s \<Longrightarrow> timer_ok (lcd_print2 s)"
  by (rule timer_ok_later[of s]) (simp_all add: lcd_print2_def usleep_def emit_def LCD_PRINT2_US_def)

lemma timer_ok_beep_square [tok]: "timer_ok s \<Longrightarrow> timer_ok (beep_square d hp hi lo s)"
  by (rule timer_ok_later[of s]) (simp_all add: beep_square_def emit_def beep_wait_ge)

lemma timer_ok_beeps [tok]:
  "timer_ok s \<Longrightarrow> timer_ok (beep_keypress s)"
  "timer_ok s \<Longrightarrow> timer_ok (beep_error s)"
  "timer_ok s \<Longrightarrow> timer_ok (beep_success s)"
  "timer_ok s \<Longrightarrow> timer_ok (beep_payment_ok s)"
  "timer_ok s \<Longrightarrow> timer_ok (beep_dispensing_slot n s)"
  by (simp_all add: beep_keypress_def beep_error_def beep_success_def beep_payment_ok_def
      beep_dispensing_slot_def tok)

lemma timer_ok_segs [tok]:
  "timer_ok s \<Longrightarrow> timer_ok (set_port_mapping b s)"
  "timer_ok s \<Longrightarrow> timer_ok (service_blink_reset s)"
  "timer_ok s \<Longrightarrow> timer_ok (service_blink_tick t s)"
  "timer_ok s \<Longrightarrow> timer_ok (timer_update_display t s)"
  "timer_ok s \<Longrightarrow> timer_ok (wait_key_release hold s)"
  "timer_ok s \<Longrightarrow> timer_ok (seg_blank s)"
  "timer_ok s \<Longrightarrow> timer_ok (seg_show_digit d s)"
  "timer_ok s \<Longrightarrow> timer_ok (motor_stop s)"
  by (rule timer_ok_later[of s];
      simp add: set_port_mapping_def service_blink_reset_def seg_show_digit_eq seg_blank_def
        emit_def wait_key_release_eq motor_stop_def)+

lemma timer_ok_screens [tok]:
  "timer_ok s \<Longrightarrow> timer_ok (menu_screen s)"
  "timer_ok s \<Longrightarrow> timer_ok (service_menu_screen s)"
  "timer_ok s \<Longrightarrow> timer_ok (show_service_gate_prompt s)"
  "timer_ok s \<Longrightarrow> timer_ok (show_return_gate_prompt s)"
  "0 \<le> n \<Longrightarrow> timer_ok s \<Longrightarrow> timer_ok (error_screen n s)"
  "timer_ok s \<Longrightarrow> timer_ok (svc_digit_screen s)"
  "timer_ok s \<Longrightarrow> timer_ok (play_sound m s)"
  by (simp_all add: menu_screen_def service_menu_screen_def show_service_gate_prompt_def
      show_return_gate_prompt_def error_screen_def svc_digit_screen_def play_sound_def tok)

lemma timer_ok_timer [tok]:
  "timer_ok s \<Longrightarrow> timer_ok (timer_stop_and_blank s)"
  "timer_ok s \<Longrightarrow> timer_ok (timer_start_or_reset s)"
  by (simp_all add: timer_ok_def timer_stop_and_blank_def timer_start_or_reset_def seg_blank_def
      emit_def now_ms_def IDLE_MS_def)


lemma tok_key_digit: "timer_ok x \<Longrightarrow> key_digit k x = Some x' \<Longrightarrow> timer_ok x'"
  by (auto simp: key_digit_def pay_digit_def Let_def tok uconst split: if_splits option.splits)

lemma tok_enter_menu: "timer_ok x \<Longrightarrow> enter_menu x = Some x' \<Longrightarrow> timer_ok x'"
  by (auto simp: enter_menu_def Let_def tok uconst split: if_splits option.splits)

lemma tok_leaves:
  "timer_ok x \<Longrightarrow> timer_ok (key_back x)"
  "timer_ok x \<Longrightarrow> timer_ok (svc_gate_timeout x)"
  "timer_ok x \<Longrightarrow> timer_ok (return_gate_timeout x)"
  "timer_ok x \<Longrightarrow> timer_ok (idle_timeout x)"
  "timer_ok x \<Longrightarrow> timer_ok (svc_gate_confirm x)"
  "timer_ok x \<Longrightarrow> timer_ok (return_gate_confirm x)"
  "timer_ok x \<Longrightarrow> timer_ok (enter_svc_menu x)"
  "timer_ok x \<Longrightarrow> timer_ok (enter_svc_sound_sel x)"
  "timer_ok x \<Longrightarrow> timer_ok (door_transitions x)"
  by (simp_all add: key_back_def svc_gate_timeout_def return_gate_timeout_def idle_timeout_def
      svc_gate_confirm_def return_gate_confirm_def enter_svc_menu_def enter_svc_sound_sel_def
      door_transitions_def door_opening_done_def door_closing_done_def Let_def tok uconst)

lemma tok_enter_amount: "timer_ok x \<Longrightarrow> enter_amount x = Some x' \<Longrightarrow> timer_ok x'"
  by (auto simp: enter_amount_def Let_def tok uconst split: if_splits option.splits)

lemma tok_enter_svc_dispense_idx: "timer_ok x \<Longrightarrow> enter_svc_dispense_idx x = Some x' \<Longrightarrow> timer_ok x'"
  by (auto simp: enter_svc_dispense_idx_def Let_def tok uconst split: if_splits option.splits)

lemma tok_enter_svc_restock_idx: "timer_ok x \<Longrightarrow> enter_svc_restock_idx x = Some x' \<Longrightarrow> timer_ok x'"
  by (auto simp: enter_svc_restock_idx_def Let_def tok uconst split: if_splits option.splits)

lemma tok_enter_svc_restock_qty: "timer_ok x \<Longrightarrow> enter_svc_restock_qty x = Some x' \<Longrightarrow> timer_ok x'"
  by (auto simp: enter_svc_restock_qty_def Let_def tok uconst split: if_splits option.splits)

lemma tok_repeat:
  assumes "\<And>s s'. body s = Some s' \<Longrightarrow> timer_ok s \<Longrightarrow> timer_ok s'"
  shows "repeat n body s = Some s' \<Longrightarrow> timer_ok s \<Longrightarrow> timer_ok s'"
proof (induction n arbitrary: s)
  case 0
  then show ?case by simp
next
  case (Suc n)
  from Suc.prems(1) obtain s1 where s1: "body s = Some s1" "repeat n body s1 = Some s'"
    by (auto split: option.splits)
  from Suc.IH[OF s1(2) assms[OF s1(1) Suc.prems(2)]] show ?case .
qed

lemma tok_spin_phase_step: "spin_phase_step s = Some s' \<Longrightarrow> timer_ok s \<Longrightarrow> timer_ok s'"
  by (auto simp: spin_phase_step_def motor_write_phase_def emit_def Let_def tok MOTOR_PHASE_DELAY_US_def)

lemma tok_motor_spin_one_cycle: "motor_spin_one_cycle s = Some s' \<Longrightarrow> timer_ok s \<Longrightarrow> timer_ok s'"
proof -
  assume a: "motor_spin_one_cycle s = Some s'" "timer_ok s"
  then obtain s1 where s1: "repeat MOTOR_STEPS_PER_CYCLE (repeat 4 spin_phase_step) s = Some s1"
    "s' = motor_stop s1" by (auto simp: motor_spin_one_cycle_def split: option.splits)
  have "timer_ok s1"
    by (rule tok_repeat[OF tok_repeat[OF tok_spin_phase_step] s1(1) a(2)])
  then show ?thesis using s1(2) by (simp add: tok)
qed

lemma tok_run_motor_test_cycles: "run_motor_test_cycles n s = Some s' \<Longrightarrow> timer_ok s \<Longrightarrow> timer_ok s'"
  unfolding run_motor_test_cycles_def Let_def
  apply (erule tok_repeat[rotated])
   apply assumption
  by (auto split: option.splits dest!: tok_motor_spin_one_cycle simp: tok)

lemma tok_enter_svc_motor_cyc: "timer_ok x \<Longrightarrow> enter_svc_motor_cyc x = Some x' \<Longrightarrow> timer_ok x'"
  by (auto simp: enter_svc_motor_cyc_def Let_def tok uconst split: if_splits option.splits
      dest!: tok_run_motor_test_cycles)

lemma burst_rel_timer_ok: "burst_rel m s s' \<Longrightarrow> timer_ok s \<Longrightarrow> timer_ok s'"
  unfolding burst_rel_def by (auto intro: timer_ok_later[of s])

lemma ui_rel_timer_ok: "ui_rel s s' \<Longrightarrow> timer_ok s \<Longrightarrow> timer_ok s'"
  using ui_rel_fields(12,21)[of s s'] by (auto intro: timer_ok_later[of s])

lemma tok_dispense_burst:
  assumes "dispense_burst n s = Some s'" "disp_live s" "timer_ok s"
  shows "timer_ok s'"
  using dispense_burst_rel[OF assms(2), of n] assms(1,3) burst_rel_timer_ok by auto

lemma tok_enter_svc_dispense_amt:
  "timer_ok x \<Longrightarrow> enter_svc_dispense_amt x = Some x' \<Longrightarrow> timer_ok x'"
  by (auto simp: enter_svc_dispense_amt_def Let_def tok uconst disp_live_start
      split: if_splits option.splits dest!: tok_dispense_burst)

lemma tok_dispensing:
  assumes "inv x" "st x = ST_DISPENSING" "timer_ok x" "dispensing x = Some x'"
  shows "timer_ok x'"
proof -
  have a: "\<not> active (gDispAnim x)" "\<not> oneshot_done (gDispAnim x)"
    using assms(1,2) by (simp_all add: inv_def)
  show ?thesis using assms(3,4) a
    by (auto simp: dispensing_def Let_def tok uconst disp_live_start
        split: option.splits dest!: tok_dispense_burst)
qed

lemma tok_key_enter:
  assumes "timer_ok z" "key_enter z = Some x'"
  shows "timer_ok x'"
  using assms
  by (auto simp: key_enter_def tok tok_leaves split: if_splits
      dest: tok_enter_menu tok_enter_amount tok_enter_svc_dispense_idx tok_enter_svc_dispense_amt
        tok_enter_svc_restock_idx tok_enter_svc_restock_qty tok_enter_svc_motor_cyc)

lemma tok_dispatch:
  assumes "timer_ok z" "dispatch k z = Some x'"
  shows "timer_ok x'"
  using assms
  by (auto simp: dispatch_def tok tok_leaves split: if_splits dest: tok_key_digit tok_key_enter)

lemma tok_scan_and_dispatch:
  assumes "timer_ok y" "scan_and_dispatch k hold y = Some x'"
  shows "timer_ok x'"
  using assms tok_dispatch[of "wait_key_release hold (beep_keypress y)" k x']
  by (auto simp: scan_and_dispatch_def tok split: if_splits)

lemma tok_after_timers:
  assumes "inv y" "timer_ok y" "after_timers k hold y = Some x'"
  shows "timer_ok x'"
  using assms tok_dispensing[of y x'] tok_scan_and_dispatch[of y k hold x']
  by (auto simp: after_timers_def split: if_splits)

lemma tok_timers_and_keys:
  assumes "inv x" "timer_ok x" "timers_and_keys t k hold x = Some x'"
  shows "timer_ok x'"
proof -
  have 1: "inv (service_blink_tick t x)" "inv (timer_update_display t x)"
    using ui_rel_inv[OF assms(1) ui_rel_service_blink_tick[OF assms(1)]]
      ui_rel_inv[OF assms(1) ui_rel_timer_update_display[OF assms(1)]] by simp_all
  have 2: "timer_ok (service_blink_tick t x)" "timer_ok (timer_update_display t x)"
    using assms(2) by (simp_all add: tok)
  show ?thesis
    using assms(3) tok_after_timers[OF 1(1) 2(1), of k hold x']
      tok_after_timers[OF 1(2) 2(2), of k hold x'] tok_after_timers[OF assms(1,2), of k hold x']
      assms(2) 2
    by (auto simp: timers_and_keys_eq tok_leaves split: if_splits)
qed

lemma tok_step:
  assumes "inv s" "timer_ok s" "step k hold s = Some s'"
  shows "timer_ok s'"
proof -
  from step_decomp[OF assms(1)] obtain s2 where
    s2: "ui_rel s s2" "\<And>k hold. step k hold s = pass_body (now_ms s) k hold s2" by blast
  have i2: "inv s2" by (rule ui_rel_inv[OF assms(1) s2(1)])
  have t2: "timer_ok s2" by (rule ui_rel_timer_ok[OF s2(1) assms(2)])
  from door_transitions_cases[OF i2] have d: "inv (door_transitions s2)" by blast
  have td: "timer_ok (door_transitions s2)" using t2 by (rule tok_leaves)
  from tok_timers_and_keys[OF d td, of "now_ms s" k hold s'] assms(3) s2(2)
  show ?thesis by (simp add: pass_body_def)
qed

lemma timer_ok_init: "0 \<le> c \<Longrightarrow> timer_ok (init c fs)"
proof -
  assume "0 \<le> c"
  then have "timer_ok (power_on c fs)"
    by (simp add: power_on_def timer_ok_def now_ms_def IDLE_MS_def)
  then show ?thesis by (simp add: init_def tok)
qed

lemma reachable_timer_ok: "reachable s \<Longrightarrow> timer_ok s"
proof (induction rule: reachable.induct)
  case (reach_init c fs)
  then show ?case by (rule timer_ok_init)
next
  case (reach_step s k hold s')
  from tok_step[OF reachable_inv[OF reach_step.hyps(1)] reach_step.IH reach_step.hyps(2)]
  show ?case .
qed


lemma timer_ok_fits_int:
  assumes "timer_ok s" "now_ms s \<le> t"
  shows "fits_int (idle_deadline s) t"
proof -
  have "idle_deadline s - t + 999 \<le> 9999"
    using assms by (simp add: timer_ok_def IDLE_MS_def)
  from zdiv_mono1[OF this, of 1000] show ?thesis by (simp add: fits_int_def)
qed


section \<open>What a pass does to the catalog\<close>

lemma frame_leaves:
  "items (key_back x) = items x"
  "items (svc_gate_timeout x) = items x"
  "items (return_gate_timeout x) = items x"
  "items (idle_timeout x) = items x"
  "items (svc_gate_confirm x) = items x"
  "items (return_gate_confirm x) = items x"
  "items (enter_svc_menu x) = items x"
  "items (enter_svc_sound_sel x) = items x"
  "items (door_transitions x) = items x"
  "items (pay_digit k x) = items x"
  by (simp_all add: key_back_def svc_gate_timeout_def return_gate_timeout_def idle_timeout_def
      svc_gate_confirm_def return_gate_confirm_def enter_svc_menu_def enter_svc_sound_sel_def
      door_transitions_def door_opening_done_def door_closing_done_def pay_digit_def Let_def sels)

lemma frame_key_digit: "key_digit k x = Some x' \<Longrightarrow> items x' = items x"
  by (auto simp: key_digit_def Let_def sels frame_leaves split: if_splits option.splits)

lemma frame_enter_menu: "enter_menu x = Some x' \<Longrightarrow> items x' = items x"
  by (auto simp: enter_menu_def Let_def sels split: if_splits option.splits)

lemma frame_enter_amount: "enter_amount x = Some x' \<Longrightarrow> items x' = items x"
  by (auto simp: enter_amount_def Let_def sels split: if_splits option.splits)

lemma frame_enter_svc_dispense_idx: "enter_svc_dispense_idx x = Some x' \<Longrightarrow> items x' = items x"
  by (auto simp: enter_svc_dispense_idx_def Let_def sels split: if_splits option.splits)

lemma frame_enter_svc_restock_idx: "enter_svc_restock_idx x = Some x' \<Longrightarrow> items x' = items x"
  by (auto simp: enter_svc_restock_idx_def Let_def sels split: if_splits option.splits)

lemma frame_enter_svc_restock_qty:
  "enter_svc_restock_qty x = Some x' \<Longrightarrow>
   items x' = (if svcbuf x \<noteq> [] \<and> 1 \<le> atoi (svcbuf x) \<and> atoi (svcbuf x) \<le> 15
               then set_stock (restock_slot x) (atoi (svcbuf x)) (items x) else items x)"
  by (auto simp: enter_svc_restock_qty_def Let_def sels split: if_splits option.splits)

lemma spin_rel_fields:
  assumes "spin_rel s s'"
  shows "st s' = st s" "items s' = items s" "amount s' = amount s" "chosen_slot s' = chosen_slot s"
  using assms unfolding spin_rel_def by auto

lemma run_motor_test_cycles_fields:
  assumes "run_motor_test_cycles n s = Some s'"
  shows "st s' = st s" "items s' = items s" "amount s' = amount s" "chosen_slot s' = chosen_slot s"
  using run_motor_test_cycles_rel[of n s] assms spin_rel_fields[of s s'] by auto

lemma dispense_burst_fields:
  assumes "dispense_burst n s = Some s'" "disp_live s"
  shows "st s' = st s" "items s' = items s" "amount s' = amount s" "chosen_slot s' = chosen_slot s"
  using dispense_burst_rel[OF assms(2), of n] assms(1) burst_rel_fields(1,4,8,9)[of _ s s'] by auto

lemma frame_enter_svc_motor_cyc: "enter_svc_motor_cyc x = Some x' \<Longrightarrow> items x' = items x"
  by (auto simp: enter_svc_motor_cyc_def Let_def sels split: if_splits option.splits
      dest!: run_motor_test_cycles_fields(2))

lemma frame_enter_svc_dispense_amt: "enter_svc_dispense_amt x = Some x' \<Longrightarrow> items x' = items x"
  by (auto simp: enter_svc_dispense_amt_def Let_def sels disp_live_start
      split: if_splits option.splits dest!: dispense_burst_fields(2))

lemma dispensing_stock:
  assumes "inv x" "st x = ST_DISPENSING" "dispensing x = Some x'"
  shows "items x' = set_stock (chosen_slot x)
           (max 0 (stock (items x ! nat (chosen_slot x)) - amount x)) (items x)"
    and "st x' = ST_MENU"
proof -
  have a: "\<not> active (gDispAnim x)" "\<not> oneshot_done (gDispAnim x)"
    "valid_slot (items x) (chosen_slot x)"
    using assms(1,2) by (simp_all add: inv_def)
  let ?x0 = "x\<lparr>gDispAnim := anim_start (gDispAnim x) disp_frames DISP_N 1 DISP_FRAME_MS (now_ms x)\<rparr>"
  have l: "disp_live ?x0" by (rule disp_live_start)
  from assms(3) a obtain x1 where x1: "dispense_burst (nat (amount x)) ?x0 = Some x1"
    by (auto simp: dispensing_def Let_def split: option.splits)
  note f = dispense_burst_fields[OF x1 l]
  show "items x' = set_stock (chosen_slot x)
           (max 0 (stock (items x ! nat (chosen_slot x)) - amount x)) (items x)"
    using assms(3) a x1 f
    by (auto simp: dispensing_def Let_def sels max_def)
  show "st x' = ST_MENU"
    using assms(3) a x1 f
    by (auto simp: dispensing_def Let_def sels)
qed

lemma frame_key_enter:
  assumes "inv z" "key_enter z = Some x'"
  shows "items x' = (if restock_confirmed KEY_ENTER z
                     then set_stock (restock_slot z) (atoi (svcbuf z)) (items z) else items z)"
proof -
  have m: "st z = ST_SVC_RESTOCK_QTY \<Longrightarrow> service_mode z"
    using assms(1) by (simp add: inv_def customer_state_def)
  show ?thesis
    using assms(2) m
    by (auto simp: key_enter_def restock_confirmed_def sels frame_leaves split: if_splits
        dest: frame_enter_menu frame_enter_amount frame_enter_svc_dispense_idx
          frame_enter_svc_dispense_amt frame_enter_svc_restock_idx frame_enter_svc_restock_qty
          frame_enter_svc_motor_cyc)
qed

lemma frame_dispatch:
  assumes "inv z" "st z \<noteq> ST_DISPENSING" "dispatch k z = Some x'"
  shows "items x' = stock_after k z"
  using assms(2,3) frame_key_enter[OF assms(1), of x']
  by (auto simp: dispatch_def stock_after_def restock_confirmed_def sels frame_leaves
      KEY_ENTER_def KEY_BACK_def isdigit_def
      split: if_splits dest: frame_key_digit)

lemma stock_after_ui: "ui_rel x z \<Longrightarrow> stock_after k z = stock_after k x"
  using ui_rel_fields(1,4,7,8,9,16)[of x z]
  by (simp add: stock_after_def restock_confirmed_def)

lemma frame_scan_and_dispatch:
  assumes "inv y" "st y \<noteq> ST_DISPENSING" "scan_and_dispatch k hold y = Some x'"
  shows "items x' = stock_after k y"
proof (cases "k = NO_KEY")
  case True
  then show ?thesis using assms(2,3)
    by (auto simp: scan_and_dispatch_def stock_after_def restock_confirmed_def sels
        NO_KEY_def KEY_ENTER_def)
next
  case False
  let ?z = "wait_key_release hold (beep_keypress y)"
  have u1: "ui_rel y (beep_keypress y)" by (rule ui_rel_beep_keypress[OF assms(1)])
  have u: "ui_rel y ?z"
    by (rule ui_rel_trans[OF u1 ui_rel_wait_key_release[OF ui_rel_inv[OF assms(1) u1]]])
  have i: "inv ?z" by (rule ui_rel_inv[OF assms(1) u])
  have "st ?z \<noteq> ST_DISPENSING" using assms(2) ui_rel_fields(1)[OF u] by simp
  from frame_dispatch[OF i this, of k x'] assms(3) False stock_after_ui[OF u, of k]
  show ?thesis by (simp add: scan_and_dispatch_def)
qed

lemma frame_after_timers:
  assumes "inv y" "after_timers k hold y = Some x'"
  shows "items x' = stock_after k y"
  using assms dispensing_stock(1)[of y x'] frame_scan_and_dispatch[of y k hold x']
  by (auto simp: after_timers_def stock_after_def split: if_splits)

lemma frame_timers_and_keys:
  assumes "inv x" "timers_and_keys t k hold x = Some x'"
  shows "items x' = stock_after k x"
proof -
  have u: "ui_rel x (service_blink_tick t x)" "ui_rel x (timer_update_display t x)"
    by (rule ui_rel_service_blink_tick[OF assms(1)], rule ui_rel_timer_update_display[OF assms(1)])
  note i = ui_rel_inv[OF assms(1) u(1)] ui_rel_inv[OF assms(1) u(2)]
  show ?thesis
    using assms(2) frame_after_timers[OF i(1), of k hold x'] frame_after_timers[OF i(2), of k hold x']
      frame_after_timers[OF assms(1), of k hold x'] stock_after_ui[OF u(1), of k]
      stock_after_ui[OF u(2), of k]
    by (auto simp: timers_and_keys_eq frame_leaves stock_after_def restock_confirmed_def
        svc_gate_expired_def return_gate_expired_def timer_active_def split: if_splits)
qed

lemma frame_step:
  assumes "inv s" "step k hold s = Some s'"
  shows "items s' = stock_after k s"
proof -
  from step_decomp[OF assms(1)] obtain s2 where
    s2: "ui_rel s s2" "\<And>k hold. step k hold s = pass_body (now_ms s) k hold s2" by blast
  have i2: "inv s2" by (rule ui_rel_inv[OF assms(1) s2(1)])
  let ?y = "door_transitions s2"
  from door_transitions_cases[OF i2] have d: "inv ?y"
     "?y = s2 \<or> ((st ?y = ST_SVC_MENU \<or> st ?y = ST_MENU)
           \<and> (st s2 = ST_DOOR_OPENING \<or> st s2 = ST_DOOR_CLOSING))"
    by blast+
  have e: "items s' = stock_after k ?y"
    using frame_timers_and_keys[OF d(1), of "now_ms s" k hold s'] assms(2) s2(2)
    by (simp add: pass_body_def)
  have "stock_after k ?y = stock_after k s2"
    using d(2) by (auto simp: stock_after_def restock_confirmed_def frame_leaves)
  then show ?thesis using e stock_after_ui[OF s2(1), of k] by simp
qed

lemma map_stock_set_stock: "map stock (set_stock i v its) = (map stock its)[nat i := v]"
  by (simp add: set_stock_def map_update)


section \<open>The amount of a purchase is covered by the stock\<close>

lemma amount_ok_ui: "ui_rel x z \<Longrightarrow> amount_ok z = amount_ok x"
  using ui_rel_fields(1,4,8,9)[of x z] by (simp add: amount_ok_def)

lemma aok_leaves:
  "amount_ok x \<Longrightarrow> amount_ok (key_back x)"
  "amount_ok (svc_gate_timeout x)"
  "amount_ok (return_gate_timeout x)"
  "amount_ok (idle_timeout x)"
  "amount_ok (svc_gate_confirm x)"
  "amount_ok (return_gate_confirm x)"
  "amount_ok x \<Longrightarrow> amount_ok (enter_svc_menu x)"
  "amount_ok x \<Longrightarrow> amount_ok (enter_svc_sound_sel x)"
  "amount_ok x \<Longrightarrow> amount_ok (door_transitions x)"
  "amount_ok x \<Longrightarrow> amount_ok (beep_error x)"
  "amount_ok x \<Longrightarrow> amount_ok (usleep n x)"
  by (simp_all add: key_back_def svc_gate_timeout_def return_gate_timeout_def idle_timeout_def
      svc_gate_confirm_def return_gate_confirm_def enter_svc_menu_def enter_svc_sound_sel_def
      door_transitions_def door_opening_done_def door_closing_done_def Let_def sels
      amount_ok_def)

lemma aok_key_digit: "amount_ok x \<Longrightarrow> key_digit k x = Some x' \<Longrightarrow> amount_ok x'"
  by (auto simp: key_digit_def pay_digit_def Let_def sels amount_ok_def svc_digit_screen_def
      split: if_splits option.splits)

lemma aok_enter_menu: "st x = ST_MENU \<Longrightarrow> enter_menu x = Some x' \<Longrightarrow> amount_ok x'"
  by (auto simp: enter_menu_def Let_def sels amount_ok_def split: if_splits option.splits)

lemma aok_enter_amount: "st x = ST_AMOUNT \<Longrightarrow> enter_amount x = Some x' \<Longrightarrow> amount_ok x'"
  by (auto simp: enter_amount_def Let_def sels amount_ok_def item_at_def
      split: if_splits option.splits)

lemma aok_enter_svc_dispense_idx:
  "st x = ST_SVC_DISPENSE_IDX \<Longrightarrow> enter_svc_dispense_idx x = Some x' \<Longrightarrow> amount_ok x'"
  by (auto simp: enter_svc_dispense_idx_def Let_def sels amount_ok_def split: if_splits option.splits)

lemma aok_enter_svc_restock_idx:
  "st x = ST_SVC_RESTOCK_IDX \<Longrightarrow> enter_svc_restock_idx x = Some x' \<Longrightarrow> amount_ok x'"
  by (auto simp: enter_svc_restock_idx_def Let_def sels amount_ok_def split: if_splits option.splits)

lemma aok_enter_svc_restock_qty:
  "st x = ST_SVC_RESTOCK_QTY \<Longrightarrow> enter_svc_restock_qty x = Some x' \<Longrightarrow> amount_ok x'"
  by (auto simp: enter_svc_restock_qty_def Let_def sels amount_ok_def split: if_splits option.splits)

lemma aok_enter_svc_motor_cyc:
  "st x = ST_SVC_MOTOR_CYC \<Longrightarrow> enter_svc_motor_cyc x = Some x' \<Longrightarrow> amount_ok x'"
  by (auto simp: enter_svc_motor_cyc_def Let_def sels amount_ok_def split: if_splits option.splits
      dest!: run_motor_test_cycles_fields(1))

lemma aok_enter_svc_dispense_amt:
  "st x = ST_SVC_DISPENSE_AMT \<Longrightarrow> enter_svc_dispense_amt x = Some x' \<Longrightarrow> amount_ok x'"
  by (auto simp: enter_svc_dispense_amt_def Let_def sels amount_ok_def split: if_splits option.splits)

lemma aok_key_enter:
  assumes "amount_ok z" "key_enter z = Some x'"
  shows "amount_ok x'"
  using assms
  by (auto simp: key_enter_def aok_leaves split: if_splits
      dest: aok_enter_menu aok_enter_amount aok_enter_svc_dispense_idx aok_enter_svc_dispense_amt
        aok_enter_svc_restock_idx aok_enter_svc_restock_qty aok_enter_svc_motor_cyc)

lemma aok_dispatch:
  assumes "amount_ok z" "dispatch k z = Some x'"
  shows "amount_ok x'"
  using assms
  by (auto simp: dispatch_def aok_leaves split: if_splits dest: aok_key_digit aok_key_enter)

lemma aok_scan_and_dispatch:
  assumes "inv y" "amount_ok y" "scan_and_dispatch k hold y = Some x'"
  shows "amount_ok x'"
proof (cases "k = NO_KEY")
  case True
  then show ?thesis using assms(2,3) by (auto simp: scan_and_dispatch_def aok_leaves)
next
  case False
  let ?z = "wait_key_release hold (beep_keypress y)"
  have u1: "ui_rel y (beep_keypress y)" by (rule ui_rel_beep_keypress[OF assms(1)])
  have u: "ui_rel y ?z"
    by (rule ui_rel_trans[OF u1 ui_rel_wait_key_release[OF ui_rel_inv[OF assms(1) u1]]])
  have "amount_ok ?z" using amount_ok_ui[OF u] assms(2) by simp
  from aok_dispatch[OF this, of k x'] assms(3) False show ?thesis
    by (simp add: scan_and_dispatch_def)
qed

lemma aok_after_timers:
  assumes "inv y" "amount_ok y" "after_timers k hold y = Some x'"
  shows "amount_ok x'"
  using assms dispensing_stock(2)[of y x'] aok_scan_and_dispatch[of y k hold x']
  by (auto simp: after_timers_def amount_ok_def split: if_splits)

lemma aok_timers_and_keys:
  assumes "inv x" "amount_ok x" "timers_and_keys t k hold x = Some x'"
  shows "amount_ok x'"
proof -
  have u: "ui_rel x (service_blink_tick t x)" "ui_rel x (timer_update_display t x)"
    by (rule ui_rel_service_blink_tick[OF assms(1)], rule ui_rel_timer_update_display[OF assms(1)])
  note i = ui_rel_inv[OF assms(1) u(1)] ui_rel_inv[OF assms(1) u(2)]
  have a: "amount_ok (service_blink_tick t x)" "amount_ok (timer_update_display t x)"
    using amount_ok_ui[OF u(1)] amount_ok_ui[OF u(2)] assms(2) by simp_all
  show ?thesis
    using assms(3) aok_after_timers[OF i(1) a(1), of k hold x']
      aok_after_timers[OF i(2) a(2), of k hold x'] aok_after_timers[OF assms(1,2), of k hold x']
    by (auto simp: timers_and_keys_eq aok_leaves split: if_splits)
qed

lemma aok_step:
  assumes "inv s" "amount_ok s" "step k hold s = Some s'"
  shows "amount_ok s'"
proof -
  from step_decomp[OF assms(1)] obtain s2 where
    s2: "ui_rel s s2" "\<And>k hold. step k hold s = pass_body (now_ms s) k hold s2" by blast
  have i2: "inv s2" by (rule ui_rel_inv[OF assms(1) s2(1)])
  have t2: "amount_ok s2" using amount_ok_ui[OF s2(1)] assms(2) by simp
  from door_transitions_cases[OF i2] have d: "inv (door_transitions s2)" by blast
  have td: "amount_ok (door_transitions s2)" using t2 by (rule aok_leaves)
  from aok_timers_and_keys[OF d td, of "now_ms s" k hold s'] assms(3) s2(2)
  show ?thesis by (simp add: pass_body_def)
qed

lemma amount_ok_init: "amount_ok (init c fs)"
  by (simp add: init_def power_on_def amount_ok_def sels)

lemma reachable_amount_ok: "reachable s \<Longrightarrow> amount_ok s"
proof (induction rule: reachable.induct)
  case (reach_init c fs)
  show ?case by (rule amount_ok_init)
next
  case (reach_step s k hold s')
  from aok_step[OF reachable_inv[OF reach_step.hyps(1)] reach_step.IH reach_step.hyps(2)]
  show ?case .
qed


section \<open>A countdown that is consulted has its deadline set\<close>

lemma countdown_live_ui: "ui_rel x z \<Longrightarrow> countdown_live z = countdown_live x"
  using ui_rel_fields(1,11,12)[of x z] by (simp add: countdown_live_def timer_active_def)

lemma deadline_started: "timer_ok s \<Longrightarrow> 0 < idle_deadline (timer_start_or_reset s)"
proof -
  assume "timer_ok s"
  then have "0 \<le> clock s" by (simp add: timer_ok_def)
  from zdiv_mono1[OF this, of 1000] have "0 \<le> clock s div 1000" by simp
  then show ?thesis by (simp add: timer_start_or_reset_def now_ms_def IDLE_MS_def)
qed

lemma deadline_stopped: "idle_deadline (timer_stop_and_blank s) = 0"
  by (simp add: timer_stop_and_blank_def seg_blank_def emit_def)

lemmas cl = countdown_live_def timer_active_def deadline_started deadline_stopped

lemma cl_leaves:
  "countdown_live x \<Longrightarrow> (service_mode x \<longrightarrow> st x \<noteq> ST_MENU) \<Longrightarrow> countdown_live (key_back x)"
  "countdown_live x \<Longrightarrow> st x = ST_SVC_GATE \<Longrightarrow> countdown_live (svc_gate_timeout x)"
  "countdown_live x \<Longrightarrow> st x = ST_RETURN_GATE \<Longrightarrow> countdown_live (return_gate_timeout x)"
  "countdown_live (idle_timeout x)"
  "countdown_live x \<Longrightarrow> st x = ST_SVC_GATE \<Longrightarrow> countdown_live (svc_gate_confirm x)"
  "countdown_live x \<Longrightarrow> st x = ST_RETURN_GATE \<Longrightarrow> countdown_live (return_gate_confirm x)"
  "countdown_live x \<Longrightarrow> st x = ST_SVC_MENU \<Longrightarrow> countdown_live (enter_svc_menu x)"
  "countdown_live x \<Longrightarrow> countdown_live (enter_svc_sound_sel x)"
  "countdown_live x \<Longrightarrow> countdown_live (door_transitions x)"
  "countdown_live x \<Longrightarrow> countdown_live (beep_error x)"
  "countdown_live x \<Longrightarrow> countdown_live (usleep n x)"
  by (auto simp add: key_back_def svc_gate_timeout_def return_gate_timeout_def idle_timeout_def
      svc_gate_confirm_def return_gate_confirm_def enter_svc_menu_def enter_svc_sound_sel_def
      door_transitions_def door_opening_done_def door_closing_done_def Let_def sels cl)

lemma cl_key_digit:
  "countdown_live x \<Longrightarrow> timer_ok x \<Longrightarrow> key_digit k x = Some x' \<Longrightarrow> countdown_live x'"
  by (auto simp: key_digit_def pay_digit_def Let_def sels cl tok svc_digit_screen_def
      split: if_splits option.splits)

lemma cl_enter_menu:
  "countdown_live x \<Longrightarrow> timer_ok x \<Longrightarrow> st x = ST_MENU \<Longrightarrow> enter_menu x = Some x'
   \<Longrightarrow> countdown_live x'"
  by (auto simp: enter_menu_def Let_def sels cl tok split: if_splits option.splits)

lemma cl_enter_amount:
  "countdown_live x \<Longrightarrow> timer_ok x \<Longrightarrow> st x = ST_AMOUNT \<Longrightarrow> enter_amount x = Some x'
   \<Longrightarrow> countdown_live x'"
  by (auto simp: enter_amount_def Let_def sels cl tok split: if_splits option.splits)

lemma cl_enter_svc_dispense_idx:
  "countdown_live x \<Longrightarrow> st x = ST_SVC_DISPENSE_IDX \<Longrightarrow> enter_svc_dispense_idx x = Some x'
   \<Longrightarrow> countdown_live x'"
  by (auto simp: enter_svc_dispense_idx_def Let_def sels cl split: if_splits option.splits)

lemma cl_enter_svc_restock_idx:
  "countdown_live x \<Longrightarrow> st x = ST_SVC_RESTOCK_IDX \<Longrightarrow> enter_svc_restock_idx x = Some x'
   \<Longrightarrow> countdown_live x'"
  by (auto simp: enter_svc_restock_idx_def Let_def sels cl split: if_splits option.splits)

lemma cl_enter_svc_restock_qty:
  "countdown_live x \<Longrightarrow> st x = ST_SVC_RESTOCK_QTY \<Longrightarrow> enter_svc_restock_qty x = Some x'
   \<Longrightarrow> countdown_live x'"
  by (auto simp: enter_svc_restock_qty_def Let_def sels cl split: if_splits option.splits)

lemma run_motor_test_cycles_fields2:
  assumes "run_motor_test_cycles n s = Some s'"
  shows "st s' = st s \<and> index_timer_active s' = index_timer_active s
    \<and> idle_deadline s' = idle_deadline s"
  using run_motor_test_cycles_rel[of n s] assms unfolding spin_rel_def by auto

lemma dispense_burst_fields2:
  assumes "dispense_burst n s = Some s'" "disp_live s"
  shows "index_timer_active s' = index_timer_active s" "idle_deadline s' = idle_deadline s"
  using dispense_burst_rel[OF assms(2), of n] assms(1) burst_rel_fields(11,12)[of _ s s'] by auto

lemma cl_enter_svc_motor_cyc:
  "countdown_live x \<Longrightarrow> st x = ST_SVC_MOTOR_CYC \<Longrightarrow> enter_svc_motor_cyc x = Some x'
   \<Longrightarrow> countdown_live x'"
  by (auto simp: enter_svc_motor_cyc_def Let_def sels cl split: if_splits option.splits
      dest!: run_motor_test_cycles_fields2)

lemma cl_enter_svc_dispense_amt:
  "countdown_live x \<Longrightarrow> st x = ST_SVC_DISPENSE_AMT \<Longrightarrow> enter_svc_dispense_amt x = Some x'
   \<Longrightarrow> countdown_live x'"
  by (auto simp: enter_svc_dispense_amt_def Let_def sels cl disp_live_start
      split: if_splits option.splits dest!: dispense_burst_fields2(1))

lemma cl_dispensing:
  assumes "inv x" "st x = ST_DISPENSING" "dispensing x = Some x'"
  shows "countdown_live x'"
proof -
  have a: "\<not> active (gDispAnim x)" "\<not> oneshot_done (gDispAnim x)"
    using assms(1,2) by (simp_all add: inv_def)
  from assms(3) a show ?thesis
    by (auto simp: dispensing_def Let_def sels cl split: option.splits)
qed

lemma cl_key_enter:
  assumes "countdown_live z" "timer_ok z" "key_enter z = Some x'"
  shows "countdown_live x'"
  using assms
  by (auto simp: key_enter_def cl_leaves split: if_splits
      dest: cl_enter_menu cl_enter_amount cl_enter_svc_dispense_idx cl_enter_svc_dispense_amt
        cl_enter_svc_restock_idx cl_enter_svc_restock_qty cl_enter_svc_motor_cyc)

lemma cl_dispatch:
  assumes "countdown_live z" "timer_ok z" "dispatch k z = Some x'"
    "service_mode z \<longrightarrow> st z \<noteq> ST_MENU"
  shows "countdown_live x'"
  using assms
  by (auto simp: dispatch_def cl_leaves split: if_splits dest: cl_key_digit cl_key_enter)

lemma cl_scan_and_dispatch:
  assumes "inv y" "countdown_live y" "timer_ok y" "scan_and_dispatch k hold y = Some x'"
  shows "countdown_live x'"
proof (cases "k = NO_KEY")
  case True
  then show ?thesis using assms(2,4) by (auto simp: scan_and_dispatch_def cl_leaves)
next
  case False
  let ?z = "wait_key_release hold (beep_keypress y)"
  have u1: "ui_rel y (beep_keypress y)" by (rule ui_rel_beep_keypress[OF assms(1)])
  have u: "ui_rel y ?z"
    by (rule ui_rel_trans[OF u1 ui_rel_wait_key_release[OF ui_rel_inv[OF assms(1) u1]]])
  have c: "countdown_live ?z" using countdown_live_ui[OF u] assms(2) by simp
  have t: "timer_ok ?z" by (rule ui_rel_timer_ok[OF u assms(3)])
  have "inv ?z" by (rule ui_rel_inv[OF assms(1) u])
  then have m: "service_mode ?z \<longrightarrow> st ?z \<noteq> ST_MENU"
    by (simp add: inv_def customer_state_def)
  from cl_dispatch[OF c t _ m, of k x'] assms(4) False show ?thesis
    by (simp add: scan_and_dispatch_def)
qed

lemma cl_after_timers:
  assumes "inv y" "countdown_live y" "timer_ok y" "after_timers k hold y = Some x'"
  shows "countdown_live x'"
  using assms cl_dispensing[of y x'] cl_scan_and_dispatch[of y k hold x']
  by (auto simp: after_timers_def split: if_splits)

lemma cl_timers_and_keys:
  assumes "inv x" "countdown_live x" "timer_ok x" "timers_and_keys t k hold x = Some x'"
  shows "countdown_live x'"
proof -
  have u: "ui_rel x (service_blink_tick t x)" "ui_rel x (timer_update_display t x)"
    by (rule ui_rel_service_blink_tick[OF assms(1)], rule ui_rel_timer_update_display[OF assms(1)])
  note i = ui_rel_inv[OF assms(1) u(1)] ui_rel_inv[OF assms(1) u(2)]
  have a: "countdown_live (service_blink_tick t x)" "countdown_live (timer_update_display t x)"
    using countdown_live_ui[OF u(1)] countdown_live_ui[OF u(2)] assms(2) by simp_all
  note b = ui_rel_timer_ok[OF u(1) assms(3)] ui_rel_timer_ok[OF u(2) assms(3)]
  show ?thesis
    using assms(2,4) cl_after_timers[OF i(1) a(1) b(1), of k hold x']
      cl_after_timers[OF i(2) a(2) b(2), of k hold x'] cl_after_timers[OF assms(1,2,3), of k hold x']
    by (auto simp: timers_and_keys_eq cl_leaves svc_gate_expired_def return_gate_expired_def
        split: if_splits)
qed

lemma cl_step:
  assumes "inv s" "countdown_live s" "timer_ok s" "step k hold s = Some s'"
  shows "countdown_live s'"
proof -
  from step_decomp[OF assms(1)] obtain s2 where
    s2: "ui_rel s s2" "\<And>k hold. step k hold s = pass_body (now_ms s) k hold s2" by blast
  have i2: "inv s2" by (rule ui_rel_inv[OF assms(1) s2(1)])
  have c2: "countdown_live s2" using countdown_live_ui[OF s2(1)] assms(2) by simp
  have t2: "timer_ok s2" by (rule ui_rel_timer_ok[OF s2(1) assms(3)])
  from door_transitions_cases[OF i2] have d: "inv (door_transitions s2)" by blast
  have cd: "countdown_live (door_transitions s2)" using c2 by (rule cl_leaves)
  have td: "timer_ok (door_transitions s2)" using t2 by (rule tok_leaves)
  from cl_timers_and_keys[OF d cd td, of "now_ms s" k hold s'] assms(4) s2(2)
  show ?thesis by (simp add: pass_body_def)
qed

lemma countdown_live_init: "countdown_live (init c fs)"
  by (simp add: init_def power_on_def cl sels)

lemma reachable_countdown_live: "reachable s \<Longrightarrow> countdown_live s"
proof (induction rule: reachable.induct)
  case (reach_init c fs)
  show ?case by (rule countdown_live_init)
next
  case (reach_step s k hold s')
  from cl_step[OF reachable_inv[OF reach_step.hyps(1)] reach_step.IH
      reachable_timer_ok[OF reach_step.hyps(1)] reach_step.hyps(2)]
  show ?case .
qed


section \<open>Key dispatch in a given state\<close>

lemma idle_expired_ui: "ui_rel x z \<Longrightarrow> timer_active z = timer_active x"
  using ui_rel_fields(1,11)[of x z] by (simp add: timer_active_def)

lemma step_to_dispatch:
  assumes "inv s" "st s \<noteq> ST_DOOR_OPENING" "st s \<noteq> ST_DOOR_CLOSING" "st s \<noteq> ST_DISPENSING"
    "\<not> svc_gate_expired (now_ms s) s" "\<not> return_gate_expired (now_ms s) s" "\<not> idle_expired s"
    "k \<noteq> NO_KEY"
  shows "\<exists>z. ui_rel s z \<and> step k hold s = dispatch k z"
proof -
  from step_decomp[OF assms(1)] obtain s2 where
    s2: "ui_rel s s2" "\<And>k hold. step k hold s = pass_body (now_ms s) k hold s2" by blast
  note f = ui_rel_fields(1,2,12)[OF s2(1)]
  have i2: "inv s2" by (rule ui_rel_inv[OF assms(1) s2(1)])
  have nd: "st s2 \<noteq> ST_DOOR_OPENING" "st s2 \<noteq> ST_DOOR_CLOSING" using assms(2,3) f by simp_all
  have g: "\<not> svc_gate_expired (now_ms s) s2" "\<not> return_gate_expired (now_ms s) s2"
    using assms(5,6) svc_gate_expired_ui[OF s2(1)] return_gate_expired_ui[OF s2(1)] by simp_all
  have "\<exists>y. ui_rel s2 y \<and> timers_and_keys (now_ms s) k hold s2 = after_timers k hold y"
  proof (cases "service_mode s2")
    case True
    then show ?thesis
      using g ui_rel_service_blink_tick[OF i2, of "now_ms s"] by (auto simp: timers_and_keys_eq)
  next
    case False
    show ?thesis
    proof (cases "timer_active s2")
      case True
      then have "timer_seconds_left (idle_deadline s2) (now_ms s) \<noteq> 0"
        using assms(7) False f idle_expired_ui[OF s2(1)] by (simp add: idle_expired_def)
      then show ?thesis
        using g False True ui_rel_timer_update_display[OF i2, of "now_ms s"]
        by (auto simp: timers_and_keys_eq)
    next
      case nt: False
      then show ?thesis
        using g False ui_rel_refl[OF inv_wf[OF i2]] by (auto simp: timers_and_keys_eq)
    qed
  qed
  then obtain y where y: "ui_rel s2 y" "timers_and_keys (now_ms s) k hold s2 = after_timers k hold y"
    by blast
  have iy: "inv y" by (rule ui_rel_inv[OF i2 y(1)])
  let ?z = "wait_key_release hold (beep_keypress y)"
  have u1: "ui_rel y (beep_keypress y)" by (rule ui_rel_beep_keypress[OF iy])
  have u: "ui_rel y ?z"
    by (rule ui_rel_trans[OF u1 ui_rel_wait_key_release[OF ui_rel_inv[OF iy u1]]])
  have sy: "st y \<noteq> ST_DISPENSING" using ui_rel_fields(1)[OF y(1)] f assms(4) by simp
  have "step k hold s = dispatch k ?z"
    using s2(2) pass_body_no_door[OF nd] y(2) sy assms(8)
    by (simp add: after_timers_def scan_and_dispatch_def)
  moreover have "ui_rel s ?z" by (rule ui_rel_trans[OF s2(1) ui_rel_trans[OF y(1) u]])
  ultimately show ?thesis by blast
qed

lemma emitted_ui:
  assumes "ui_rel s z" "out s' = new @ out z"
  shows "set new \<subseteq> set (emitted s s')"
proof -
  from ui_rel_fields(22)[OF assms(1)] obtain ev where "out z = ev @ out s" by blast
  then have "out s' = (new @ ev) @ out s" using assms(2) by simp
  from emitted_append[OF this] show ?thesis by simp
qed

lemma amount_reject_step:
  assumes "inv s" "st s = ST_AMOUNT" "\<not> idle_expired s"
    and "atoi (amtbuf s) = 0 \<or> atoi (amtbuf s) > MAX_COUNT
         \<or> atoi (amtbuf s) > stock (items s ! nat (chosen_slot s))"
  shows "\<exists>s'. step KEY_ENTER hold s = Some s' \<and> st s' = ST_AMOUNT \<and> amtbuf s' = []
     \<and> error_cue \<in> set (emitted s s') \<and> items s' = items s"
proof -
  have m: "\<not> service_mode s" using assms(1,2) by (simp add: inv_def customer_state_def)
  have g: "\<not> svc_gate_expired (now_ms s) s" "\<not> return_gate_expired (now_ms s) s"
    using assms(2) by (simp_all add: svc_gate_expired_def return_gate_expired_def)
  from step_to_dispatch[OF assms(1) _ _ _ g assms(3), of KEY_ENTER hold] assms(2)
  obtain z where z: "ui_rel s z" "step KEY_ENTER hold s = dispatch KEY_ENTER z"
    by (auto simp: KEY_ENTER_def NO_KEY_def)
  note f = ui_rel_fields(1,2,4,6,8)[OF z(1)]
  have iz: "inv z" by (rule ui_rel_inv[OF assms(1) z(1)])
  then have v: "valid_slot (items z) (chosen_slot z)" using f assms(2) by (simp add: inv_def)
  have d: "dispatch KEY_ENTER z = enter_amount z"
    using f assms(2) m by (simp add: dispatch_def key_enter_def KEY_ENTER_def KEY_BACK_def isdigit_def)
  let ?r0 = "error_screen USLEEP_ERR_SHORT_US z"
  let ?r' = "(error_screen USLEEP_ERR_SHORT_US (z\<lparr>amount := atoi (amtbuf z)\<rparr>))\<lparr>amtbuf := []\<rparr>"
  have o: "out ?r0 = [EvLcd, error_cue] @ out z" "out ?r' = [EvLcd, error_cue] @ out z"
    by (simp_all add: ops error_cue_def)
  show ?thesis
  proof (cases "length (amtbuf z) = 0")
    case True
    then have "enter_amount z = Some ?r0" by (simp add: enter_amount_def)
    then show ?thesis using z(2) d f emitted_ui[OF z(1) o(1)] assms(2) True
      by (intro exI[of _ ?r0]) (simp add: ops)
  next
    case False
    have "enter_amount z = Some ?r'"
    proof (cases "atoi (amtbuf z) < 1 \<or> atoi (amtbuf z) > MAX_COUNT")
      case True
      then show ?thesis using False by (simp add: enter_amount_def Let_def)
    next
      case r: False
      then have "atoi (amtbuf z) > stock (items z ! nat (chosen_slot z))"
        using assms(4) f by auto
      then show ?thesis using False r v by (simp add: enter_amount_def Let_def)
    qed
    then show ?thesis using z(2) d f emitted_ui[OF z(1) o(2)] assms(2)
      by (intro exI[of _ ?r']) (simp add: ops)
  qed
qed

lemma pay_digit_step:
  assumes "inv s" "st s = ST_PAY" "\<not> idle_expired s" "isdigit k"
  shows "\<exists>s'. step k hold s = Some s' \<and> inv s'
     \<and> pay_zero_count s' = (if k = CHR ''0'' then pay_zero_count s + 1 else 0)
     \<and> st s' = (if pay_zero_count s' \<ge> 2 then ST_DISPENSING else ST_PAY)
     \<and> items s' = items s"
proof -
  have m: "\<not> service_mode s" using assms(1,2) by (simp add: inv_def customer_state_def)
  have g: "\<not> svc_gate_expired (now_ms s) s" "\<not> return_gate_expired (now_ms s) s"
    using assms(2) by (simp_all add: svc_gate_expired_def return_gate_expired_def)
  have nk: "k \<noteq> NO_KEY" "k \<noteq> KEY_BACK" using assms(4) by (auto simp: isdigit_def NO_KEY_def KEY_BACK_def)
  from step_to_dispatch[OF assms(1) _ _ _ g assms(3) nk(1), of hold] assms(2)
  obtain z where z: "ui_rel s z" "step k hold s = dispatch k z" by auto
  note f = ui_rel_fields(1,2,4,10)[OF z(1)]
  have iz: "inv z" by (rule ui_rel_inv[OF assms(1) z(1)])
  have d: "dispatch k z = Some (pay_digit k z)"
    using f assms(2,4) m nk by (simp add: dispatch_def key_digit_def)
  from leaf_key_digit[OF iz, of k "now_ms s"] have i': "inv (pay_digit k z)"
    using f assms(2,4) m by (simp add: key_digit_def)
  show ?thesis
    apply (rule exI[of _ "pay_digit k z"])
    using z(2) d i' f assms(2)
    by (simp add: pay_digit_def Let_def ops)
qed

lemma pay_enter_step:
  assumes "inv s" "st s = ST_PAY" "\<not> idle_expired s"
  shows "\<exists>s'. step KEY_ENTER hold s = Some s' \<and> inv s' \<and> st s' = ST_PAY
     \<and> pay_zero_count s' = pay_zero_count s \<and> idle_deadline s' = idle_deadline s
     \<and> error_cue \<in> set (emitted s s')"
proof -
  have m: "\<not> service_mode s" using assms(1,2) by (simp add: inv_def customer_state_def)
  have g: "\<not> svc_gate_expired (now_ms s) s" "\<not> return_gate_expired (now_ms s) s"
    using assms(2) by (simp_all add: svc_gate_expired_def return_gate_expired_def)
  from step_to_dispatch[OF assms(1) _ _ _ g assms(3), of KEY_ENTER hold] assms(2)
  obtain z where z: "ui_rel s z" "step KEY_ENTER hold s = dispatch KEY_ENTER z"
    by (auto simp: KEY_ENTER_def NO_KEY_def)
  note f = ui_rel_fields(1,2,4,10,12)[OF z(1)]
  have iz: "inv z" by (rule ui_rel_inv[OF assms(1) z(1)])
  have d: "dispatch KEY_ENTER z = Some (beep_error z)"
    using f assms(2) m by (simp add: dispatch_def key_enter_def KEY_ENTER_def KEY_BACK_def isdigit_def)
  have o: "out (beep_error z) = [error_cue] @ out z" by (simp add: ops error_cue_def)
  from leaf_beep_error[OF iz, of "now_ms s" KEY_ENTER] have i': "inv (beep_error z)" by simp
  show ?thesis
    apply (rule exI[of _ "beep_error z"])
    using z(2) d i' f assms(2) emitted_ui[OF z(1) o]
    by (simp add: ops)
qed




section \<open>Runs\<close>

lemma run_append:
  "run (a @ b) s = (case run a s of None \<Rightarrow> None | Some s' \<Rightarrow> run b s')"
  by (induction a arbitrary: s) (auto split: option.splits)

lemma reachable_run: "reachable s \<Longrightarrow> run ks s = Some s' \<Longrightarrow> reachable s'"
proof (induction ks arbitrary: s)
  case Nil
  then show ?case by simp
next
  case (Cons a ks)
  obtain k hold where a: "a = (k, hold)" by (cases a)
  from Cons.prems(2) obtain s1 where s1: "step k hold s = Some s1" "run ks s1 = Some s'"
    unfolding a by (auto split: option.splits)
  from reach_step[OF Cons.prems(1) s1(1)] Cons.IH s1(2) show ?case by blast
qed

lemma keys_append: "keys (a @ b) = keys a @ keys b"
  by (simp add: keys_def)

lemma atoi_5: "atoi ''5'' = 5"
  by (simp add: atoi_def isdigit_def)

section \<open>Countdown\<close>

text \<open>
  The cast to \<^verbatim>\<open>int\<close> in \<^verbatim>\<open>timer_seconds_left\<close> wraps for a reading more than \<open>2^31\<close>
  seconds before the deadline: there the result is 0 and rises later. No reachable machine
  has such a deadline, by \<open>timer_ok\<close>.
\<close>

lemma timer_seconds_left_cast_wraps:
  "timer_seconds_left 2147483648001 0 = 0
   \<and> timer_seconds_left 2147483648001 2147483643001 = 5
   \<and> \<not> fits_int 2147483648001 0"
  by (simp add: timer_seconds_left_def to_int32_def fits_int_def)

text \<open>
  C5. With a deadline set (\<open>0 < d\<close>; the sentinel \<open>d \<le> 0\<close> of a stopped countdown gives
  \<open>- 1\<close>) \<^verbatim>\<open>timer_seconds_left\<close> lies in \<open>[0, 9]\<close> at every reading and is 0 at every
  reading at or after the deadline. For the countdown of a reachable machine \<open>s\<close>, read at
  \<open>t1 \<le> t2\<close> from the clock reading of \<open>s\<close> on: the deadline is not negative and at most
  \<open>IDLE_MS\<close> after the clock reading; the result does not increase from \<open>t1\<close> to \<open>t2\<close>;
  while the loop consults the countdown its deadline is set; and with a deadline set the
  result is the number of remaining milliseconds divided by 1000 and rounded up, clamped to
  \<open>[0, 9]\<close>.
\<close>

theorem timer_seconds_left_countdown:
  "(0 < d \<longrightarrow> 0 \<le> timer_seconds_left d t \<and> timer_seconds_left d t \<le> 9)
   \<and> (0 < d \<and> d \<le> t \<longrightarrow> timer_seconds_left d t = 0)
   \<and> (d \<le> 0 \<longrightarrow> timer_seconds_left d t = - 1)
   \<and> (reachable s \<and> now_ms s \<le> t1 \<and> t1 \<le> t2 \<longrightarrow>
        0 \<le> idle_deadline s \<and> idle_deadline s \<le> now_ms s + IDLE_MS
        \<and> timer_seconds_left (idle_deadline s) t2 \<le> timer_seconds_left (idle_deadline s) t1
        \<and> (timer_active s \<longrightarrow> 0 < idle_deadline s)
        \<and> (0 < idle_deadline s \<longrightarrow>
             timer_seconds_left (idle_deadline s) t1
               = max 0 (min 9 ((idle_deadline s - t1 + 999) div 1000))))"
proof -
  have 4: "0 < d \<longrightarrow> 0 \<le> timer_seconds_left d t \<and> timer_seconds_left d t \<le> 9"
    using tsl_range[of d t] by blast
  have 5: "0 < d \<and> d \<le> t \<longrightarrow> timer_seconds_left d t = 0"
    using tsl_zero[of d t] by blast
  have 6: "d \<le> 0 \<longrightarrow> timer_seconds_left d t = - 1"
    using tsl_stopped[of d t] by blast
  have 7: "0 \<le> idle_deadline s \<and> idle_deadline s \<le> now_ms s + IDLE_MS
        \<and> timer_seconds_left (idle_deadline s) t2 \<le> timer_seconds_left (idle_deadline s) t1
        \<and> (timer_active s \<longrightarrow> 0 < idle_deadline s)
        \<and> (0 < idle_deadline s \<longrightarrow>
             timer_seconds_left (idle_deadline s) t1
               = max 0 (min 9 ((idle_deadline s - t1 + 999) div 1000)))"
    if a: "reachable s" "now_ms s \<le> t1" "t1 \<le> t2"
  proof -
    note k = reachable_timer_ok[OF a(1)]
    have f: "fits_int (idle_deadline s) t1" by (rule timer_ok_fits_int[OF k a(2)])
    have 0: "0 \<le> idle_deadline s \<and> idle_deadline s \<le> now_ms s + IDLE_MS"
      using k by (simp add: timer_ok_def)
    have 1: "timer_seconds_left (idle_deadline s) t2 \<le> timer_seconds_left (idle_deadline s) t1"
      by (rule tsl_mono_all[OF f a(3)])
    have 2: "timer_active s \<longrightarrow> 0 < idle_deadline s"
      using reachable_countdown_live[OF a(1)] by (simp add: countdown_live_def)
    have 3: "0 < idle_deadline s \<longrightarrow>
            timer_seconds_left (idle_deadline s) t1
              = max 0 (min 9 ((idle_deadline s - t1 + 999) div 1000))"
      using tsl_exact[OF _ f] by blast
    from 0 1 2 3 show ?thesis by blast
  qed
  from 4 5 6 7 show ?thesis by blast
qed

section \<open>Mode and port mapping\<close>

text \<open>
  C1, as amended. From every reachable machine and for every keypad input the pass returns,
  and: the mode changes only when a key confirms SERVICE-GATE before its deadline (to
  SERVICE, as the DOOR-OPENING animation is started) or when the DOOR-CLOSING animation
  completes (to NORMAL); the port mapping changes only when ENTER confirms the reserved
  code in MENU or in SVC-MENU (as the gate is entered) or when a gate has timed out; a pass
  that starts in DOOR-OPENING, its completion included, changes neither.
\<close>

theorem mode_and_ports_change_only_at_gates:
  assumes "reachable s"
  shows "\<exists>s'. step k hold s = Some s'
    \<and> (service_mode s' \<noteq> service_mode s \<longrightarrow>
           (st s = ST_SVC_GATE \<and> k \<noteq> NO_KEY \<and> \<not> svc_gate_expired (now_ms s) s
              \<and> service_mode s' \<and> st s' = ST_DOOR_OPENING)
         \<or> (st s = ST_DOOR_CLOSING \<and> door_completes s \<and> \<not> service_mode s'))
    \<and> (port_mapping s' \<noteq> port_mapping s \<longrightarrow>
           (st s = ST_MENU \<and> k = KEY_ENTER \<and> selbuf s = ''1234'' \<and> st s' = ST_SVC_GATE)
         \<or> (st s = ST_SVC_MENU \<and> k = KEY_ENTER \<and> selbuf s = ''1234'' \<and> st s' = ST_RETURN_GATE)
         \<or> svc_gate_expired (now_ms s) s \<or> return_gate_expired (now_ms s) s)
    \<and> (st s = ST_DOOR_OPENING \<longrightarrow>
           service_mode s' = service_mode s \<and> port_mapping s' = port_mapping s)"
  using step_total[OF reachable_inv[OF assms], of k hold] by blast

section \<open>Stock\<close>

text \<open>
  C10. In every reachable machine every item of the catalog has a stock in \<open>[0, 15]\<close>; the
  stocks at power-on are 1, 2, 3 and 4. Every pass from a reachable machine returns, and does
  one of three things to the catalog. A pass in DISPENSING, the customer dispense, replaces
  the stock of the chosen item by that stock minus the amount, raised to 0 when negative;
  the amount is at least 1 and at most that stock, as checked by ENTER in AMOUNT. ENTER in
  SVC-RESTOCK-QTY on a number from 1 to 15 stores that number as the stock of the item being
  restocked. Every other pass, a restock of a number outside 1 to 15 included, leaves the
  catalog as it is. The clamp is what keeps the stock in range where the amount exceeds it:
  from any machine \<open>x\<close> in DISPENSING that satisfies the loop invariant, also one whose
  amount is above the stock, the pass stores the difference raised to 0 and every stock is
  again in \<open>[0, 15]\<close>.
\<close>

theorem stock_stays_within_bounds:
  assumes "reachable s"
  shows "(\<forall>it \<in> set (items s). 0 \<le> stock it \<and> stock it \<le> 15)
       \<and> map stock (items (init c fs)) = [1, 2, 3, 4]
       \<and> (\<exists>s'. step k hold s = Some s'
            \<and> (if st s = ST_DISPENSING then
                  valid_slot (items s) (chosen_slot s)
                  \<and> 1 \<le> amount s \<and> amount s \<le> stock (items s ! nat (chosen_slot s))
                  \<and> items s' = set_stock (chosen_slot s)
                        (max 0 (stock (items s ! nat (chosen_slot s)) - amount s)) (items s)
                else if st s = ST_SVC_RESTOCK_QTY \<and> k = KEY_ENTER \<and> svcbuf s \<noteq> []
                        \<and> 1 \<le> atoi (svcbuf s) \<and> atoi (svcbuf s) \<le> 15 then
                  valid_slot (items s) (restock_slot s)
                  \<and> items s' = set_stock (restock_slot s) (atoi (svcbuf s)) (items s)
                else items s' = items s))
       \<and> (inv x \<and> st x = ST_DISPENSING \<longrightarrow>
            (\<exists>x'. step k hold x = Some x'
               \<and> items x' = set_stock (chosen_slot x)
                     (max 0 (stock (items x ! nat (chosen_slot x)) - amount x)) (items x)
               \<and> (\<forall>it \<in> set (items x'). 0 \<le> stock it \<and> stock it \<le> 15)))"
proof -
  note i = reachable_inv[OF assms]
  have 3: "\<exists>x'. step k hold x = Some x'
               \<and> items x' = set_stock (chosen_slot x)
                     (max 0 (stock (items x ! nat (chosen_slot x)) - amount x)) (items x)
               \<and> (\<forall>it \<in> set (items x'). 0 \<le> stock it \<and> stock it \<le> 15)"
    if a: "inv x" "st x = ST_DISPENSING"
  proof -
    from step_total[OF a(1), of k hold] obtain x' where
      x': "step k hold x = Some x'" "inv x'" by blast
    have "items x' = stock_after k x" by (rule frame_step[OF a(1) x'(1)])
    then have e: "items x' = set_stock (chosen_slot x)
                     (max 0 (stock (items x ! nat (chosen_slot x)) - amount x)) (items x)"
      using a(2) by (simp add: stock_after_def)
    have "stocks_ok (items x')" using x'(2) by (simp add: inv_def)
    then have "\<forall>it \<in> set (items x'). 0 \<le> stock it \<and> stock it \<le> 15"
      by (simp add: stocks_ok_def list_all_iff MAX_COUNT_def)
    with x'(1) e show ?thesis by blast
  qed
  have "stocks_ok (items s)" using i by (simp add: inv_def)
  then have 1: "\<forall>it \<in> set (items s). 0 \<le> stock it \<and> stock it \<le> 15"
    by (simp add: stocks_ok_def list_all_iff MAX_COUNT_def)
  have 2: "map stock (items (init c fs)) = [1, 2, 3, 4]"
    by (simp add: init_def power_on_def catalog_def ops)
  from step_total[OF i, of k hold] obtain s' where s': "step k hold s = Some s'" by blast
  have f: "items s' = stock_after k s" by (rule frame_step[OF i s'])
  have d: "st s = ST_DISPENSING \<longrightarrow> valid_slot (items s) (chosen_slot s)
      \<and> 1 \<le> amount s \<and> amount s \<le> stock (items s ! nat (chosen_slot s))"
    using i reachable_amount_ok[OF assms] by (simp add: inv_def amount_ok_def)
  have r: "st s = ST_SVC_RESTOCK_QTY \<longrightarrow> valid_slot (items s) (restock_slot s)"
    using i by (simp add: inv_def)
  have "if st s = ST_DISPENSING then
                  valid_slot (items s) (chosen_slot s)
                  \<and> 1 \<le> amount s \<and> amount s \<le> stock (items s ! nat (chosen_slot s))
                  \<and> items s' = set_stock (chosen_slot s)
                        (max 0 (stock (items s ! nat (chosen_slot s)) - amount s)) (items s)
                else if st s = ST_SVC_RESTOCK_QTY \<and> k = KEY_ENTER \<and> svcbuf s \<noteq> []
                        \<and> 1 \<le> atoi (svcbuf s) \<and> atoi (svcbuf s) \<le> 15 then
                  valid_slot (items s) (restock_slot s)
                  \<and> items s' = set_stock (restock_slot s) (atoi (svcbuf s)) (items s)
                else items s' = items s"
    using f d r by (simp add: stock_after_def restock_confirmed_def)
  with 1 2 3 s' show ?thesis by blast
qed

section \<open>AMOUNT and PAY\<close>

text \<open>
  C8. In AMOUNT, with the idle countdown not expired, ENTER on a quantity that is 0, exceeds
  15 or exceeds the stock of the chosen item is rejected: the pass returns in AMOUNT with the
  amount buffer empty, the error cue is in the trace of the pass, and no stock has changed.
\<close>

theorem amount_out_of_range_rejected:
  assumes "inv s" and "st s = ST_AMOUNT" and "\<not> idle_expired s"
    and "atoi (amtbuf s) = 0 \<or> atoi (amtbuf s) > 15
         \<or> atoi (amtbuf s) > stock (items s ! nat (chosen_slot s))"
  shows "\<exists>s'. step KEY_ENTER hold s = Some s' \<and> st s' = ST_AMOUNT \<and> amtbuf s' = []
     \<and> error_cue \<in> set (emitted s s') \<and> items s' = items s"
  using amount_reject_step[OF assms(1,2,3), of hold] assms(4) by (simp add: MAX_COUNT_def)

text \<open>
  C7, as amended. In PAY with the zero counter at 0 (as on entry) and the idle countdown not
  expired: a \<open>0\<close> keeps the machine in PAY with the counter at 1; a second \<open>0\<close> right after
  it ends in DISPENSING; any other digit after the first \<open>0\<close> resets the counter to 0 and
  stays in PAY, so that the next \<open>0\<close> only brings the counter back to 1 and stays in PAY.
\<close>

theorem pay_two_consecutive_zeros:
  assumes "inv s" and "st s = ST_PAY" and "pay_zero_count s = 0" and "\<not> idle_expired s"
  shows "\<exists>s1. step (CHR ''0'') h1 s = Some s1 \<and> st s1 = ST_PAY \<and> pay_zero_count s1 = 1
      \<and> (\<not> idle_expired s1 \<longrightarrow>
            (\<exists>s2. step (CHR ''0'') h2 s1 = Some s2 \<and> st s2 = ST_DISPENSING))
      \<and> (isdigit d \<and> d \<noteq> CHR ''0'' \<and> \<not> idle_expired s1 \<longrightarrow>
            (\<exists>s2. step d h2 s1 = Some s2 \<and> st s2 = ST_PAY \<and> pay_zero_count s2 = 0
               \<and> (\<not> idle_expired s2 \<longrightarrow>
                    (\<exists>s3. step (CHR ''0'') h3 s2 = Some s3 \<and> st s3 = ST_PAY
                       \<and> pay_zero_count s3 = 1))))"
proof -
  have z: "isdigit (CHR ''0'')" by (simp add: isdigit_def)
  from pay_digit_step[OF assms(1,2,4) z, of h1] assms(3) obtain s1 where
    s1: "step (CHR ''0'') h1 s = Some s1" "inv s1" "pay_zero_count s1 = 1" "st s1 = ST_PAY"
    by auto
  have a: "\<exists>s2. step (CHR ''0'') h2 s1 = Some s2 \<and> st s2 = ST_DISPENSING" if "\<not> idle_expired s1"
    using pay_digit_step[OF s1(2,4) that z, of h2] s1(3) by auto
  have b: "\<exists>s2. step d h2 s1 = Some s2 \<and> st s2 = ST_PAY \<and> pay_zero_count s2 = 0
               \<and> (\<not> idle_expired s2 \<longrightarrow>
                    (\<exists>s3. step (CHR ''0'') h3 s2 = Some s3 \<and> st s3 = ST_PAY
                       \<and> pay_zero_count s3 = 1))"
    if "isdigit d \<and> d \<noteq> CHR ''0'' \<and> \<not> idle_expired s1"
  proof -
    from pay_digit_step[OF s1(2,4), of d h2] that obtain s2 where
      s2: "step d h2 s1 = Some s2" "inv s2" "pay_zero_count s2 = 0" "st s2 = ST_PAY"
      by auto
    have "\<exists>s3. step (CHR ''0'') h3 s2 = Some s3 \<and> st s3 = ST_PAY \<and> pay_zero_count s3 = 1"
      if "\<not> idle_expired s2"
      using pay_digit_step[OF s2(2,4) that z, of h3] s2(3) by auto
    then show ?thesis using s2 by blast
  qed
  show ?thesis using s1 a b by blast
qed

section \<open>Service restock and manual dispense\<close>



section \<open>Where the claims as stated fail\<close>

lemma run_1234: "map_option (\<lambda>s. (st s, port_mapping s)) (run (keys ''1234'') (init 0 []))
    = Some (ST_MENU, normal_ports)"
  by code_simp

lemma run_1234B: "map_option (\<lambda>s. (st s, service_mode s, port_mapping s,
        active (gDoorAnim s), oneshot_done (gDoorAnim s))) (run (keys ''1234B'') (init 0 []))
    = Some (ST_SVC_GATE, False, admin_ports, False, False)"
  by code_simp

lemma run_1234B5: "map_option (\<lambda>s. (st s, service_mode s, oneshot_done (gDoorAnim s)))
      (run (keys ''1234B5'') (init 0 []))
    = Some (ST_DOOR_OPENING, True, False)"
  by code_simp

text \<open>
  C1 as stated fails from power-on: typing the reserved code and ENTER swaps the port mapping
  to the admin one on entering SERVICE-GATE, with the door track never started; the key that
  then confirms the gate sets the mode to SERVICE while the DOOR-OPENING animation has only
  been started, not completed.
\<close>

theorem mode_and_ports_counterexample:
  "map_option st (run (keys ''1234'') (init 0 [])) = Some ST_MENU
   \<and> map_option port_mapping (run (keys ''1234'') (init 0 [])) = Some normal_ports
   \<and> map_option st (run (keys ''1234B'') (init 0 [])) = Some ST_SVC_GATE
   \<and> map_option port_mapping (run (keys ''1234B'') (init 0 [])) = Some admin_ports
   \<and> map_option (active \<circ> gDoorAnim) (run (keys ''1234B'') (init 0 [])) = Some False
   \<and> map_option (oneshot_done \<circ> gDoorAnim) (run (keys ''1234B'') (init 0 [])) = Some False
   \<and> map_option service_mode (run (keys ''1234B'') (init 0 [])) = Some False
   \<and> map_option service_mode (run (keys ''1234B5'') (init 0 [])) = Some True
   \<and> map_option st (run (keys ''1234B5'') (init 0 [])) = Some ST_DOOR_OPENING
   \<and> map_option (oneshot_done \<circ> gDoorAnim) (run (keys ''1234B5'') (init 0 [])) = Some False"
  using run_1234 run_1234B run_1234B5
  by (auto simp: map_option_case split: option.splits)

lemma run_pay_enter: "map_option (\<lambda>s. (st s, pay_zero_count s)) (run (keys ''3B1B0B'') (init 0 []))
    = Some (ST_PAY, 1)"
  by code_simp

lemma run_pay_enter_zero: "map_option st (run (keys ''3B1B0B0'') (init 0 [])) = Some ST_DISPENSING"
  by code_simp

lemma run_pay_zero: "map_option (\<lambda>s. (st s, pay_zero_count s)) (run (keys ''3B1B0'') (init 0 []))
    = Some (ST_PAY, 1)"
  by code_simp

text \<open>
  C7 as stated fails for the key ENTER: from power-on, item 3, quantity 1, then \<open>0\<close>, ENTER,
  \<open>0\<close> ends in DISPENSING, since ENTER in PAY leaves the zero counter at 1.
\<close>

theorem pay_enter_between_zeros_counterexample:
  "map_option st (run (keys ''3B1B0'') (init 0 [])) = Some ST_PAY
   \<and> map_option pay_zero_count (run (keys ''3B1B0'') (init 0 [])) = Some 1
   \<and> map_option st (run (keys ''3B1B0B'') (init 0 [])) = Some ST_PAY
   \<and> map_option pay_zero_count (run (keys ''3B1B0B'') (init 0 [])) = Some 1
   \<and> map_option st (run (keys ''3B1B0B0'') (init 0 [])) = Some ST_DISPENSING"
  using run_pay_zero run_pay_enter run_pay_enter_zero
  by (auto simp: map_option_case split: option.splits)






section \<open>Concrete instances\<close>

named_theorems exdefs

lemmas [exdefs] = init_def power_on_def inv_def wf_anim_def armed_def zero_anim_def stocks_ok_def
  catalog_def customer_state_def valid_slot_def MAX_COUNT_def port_mapping_def normal_ports_def
  admin_ports_def svc_gate_expired_def return_gate_expired_def idle_expired_def timer_active_def
  PQIV_KEEP_def LCD_PRINT2_US_def

lemma inv_svc_gate_late: "inv svc_gate_late \<and> svc_gate_expired (now_ms svc_gate_late) svc_gate_late"
  by (simp add: svc_gate_late_def exdefs ops)

lemma inv_return_gate_late: "inv return_gate_late \<and> return_gate_expired (now_ms return_gate_late) return_gate_late"
  by (simp add: return_gate_late_def exdefs ops)

lemma inv_amount_idle_late: "inv amount_idle_late \<and> idle_expired amount_idle_late"
  by (simp add: amount_idle_late_def exdefs ops timer_seconds_left_def)

theorem gate_timeouts_asymmetric_witness:
  "inv svc_gate_late \<and> svc_gate_expired (now_ms svc_gate_late) svc_gate_late
   \<and> (\<exists>s'. step NO_KEY 0 svc_gate_late = Some s' \<and> st s' = ST_MENU \<and> \<not> service_mode s')
   \<and> inv return_gate_late \<and> return_gate_expired (now_ms return_gate_late) return_gate_late
   \<and> (\<exists>s'. step NO_KEY 0 return_gate_late = Some s' \<and> st s' = ST_SVC_MENU \<and> service_mode s')"
  using gate_timeouts_asymmetric[of svc_gate_late] gate_timeouts_asymmetric[of return_gate_late]
    inv_svc_gate_late inv_return_gate_late
  by blast

theorem expired_timer_preempts_keypress_witness:
  "inv amount_idle_late \<and> idle_expired amount_idle_late
   \<and> (\<exists>s'. step KEY_ENTER 0 amount_idle_late = Some s' \<and> step NO_KEY 0 amount_idle_late = Some s'
          \<and> st s' = ST_MENU)"
  using expired_timer_preempts_keypress[of amount_idle_late] inv_amount_idle_late
  by (auto simp: amount_idle_late_def)

theorem dispense_burst_phases_and_animation_witness:
  "(1::nat) \<le> 1
   \<and> (\<exists>s'. dispense_burst 1
          ((init 0 [])\<lparr>gDispAnim := anim_start (gDispAnim (init 0 [])) disp_frames DISP_N 1
                                      DISP_FRAME_MS (now_ms (init 0 []))\<rparr>) = Some s'
         \<and> length (motor_phases (out s')) = 240 \<and> oneshot_done (gDispAnim s'))"
proof -
  have "motor_phases (out (init 0 [])) = []" by (simp add: exdefs ops)
  with dispense_burst_phases_and_animation[of 1 _ "init 0 []", OF _ refl]
  show ?thesis by auto
qed


lemma inv_pay_ready: "inv pay_ready \<and> st pay_ready = ST_PAY \<and> pay_zero_count pay_ready = 0
    \<and> \<not> idle_expired pay_ready"
  by (simp add: pay_ready_def exdefs ops timer_seconds_left_def to_int32_def)

lemma pay_ready_first_zero:
  "map_option idle_expired (step (CHR ''0'') 0 pay_ready) = Some False"
  by code_simp

lemma pay_ready_then_seven:
  "map_option idle_expired
     (case step (CHR ''0'') 0 pay_ready of None \<Rightarrow> None | Some s1 \<Rightarrow> step (CHR ''7'') 0 s1)
   = Some False"
  by code_simp

theorem pay_two_consecutive_zeros_witness:
  "inv pay_ready \<and> st pay_ready = ST_PAY \<and> pay_zero_count pay_ready = 0 \<and> \<not> idle_expired pay_ready
   \<and> isdigit (CHR ''7'') \<and> CHR ''7'' \<noteq> CHR ''0''
   \<and> (\<exists>s1 s2. step (CHR ''0'') 0 pay_ready = Some s1 \<and> \<not> idle_expired s1
          \<and> step (CHR ''0'') 0 s1 = Some s2 \<and> st s2 = ST_DISPENSING)
   \<and> (\<exists>s1 s2 s3. step (CHR ''0'') 0 pay_ready = Some s1 \<and> step (CHR ''7'') 0 s1 = Some s2
          \<and> \<not> idle_expired s2 \<and> step (CHR ''0'') 0 s2 = Some s3 \<and> st s3 = ST_PAY)"
proof -
  have d: "isdigit (CHR ''7'')" "CHR ''7'' \<noteq> CHR ''0''" by (simp_all add: isdigit_def)
  from pay_two_consecutive_zeros[of pay_ready 0 0 "CHR ''7''" 0] inv_pay_ready
  obtain s1 where s1: "step (CHR ''0'') 0 pay_ready = Some s1"
     "\<not> idle_expired s1 \<longrightarrow> (\<exists>s2. step (CHR ''0'') 0 s1 = Some s2 \<and> st s2 = ST_DISPENSING)"
     "isdigit (CHR ''7'') \<and> CHR ''7'' \<noteq> CHR ''0'' \<and> \<not> idle_expired s1 \<longrightarrow>
            (\<exists>s2. step (CHR ''7'') 0 s1 = Some s2 \<and> st s2 = ST_PAY \<and> pay_zero_count s2 = 0
               \<and> (\<not> idle_expired s2 \<longrightarrow>
                    (\<exists>s3. step (CHR ''0'') 0 s2 = Some s3 \<and> st s3 = ST_PAY
                       \<and> pay_zero_count s3 = 1)))"
    by blast
  have e1: "\<not> idle_expired s1" using pay_ready_first_zero s1(1) by simp
  with s1(3) d obtain s2 where s2: "step (CHR ''7'') 0 s1 = Some s2"
     "\<not> idle_expired s2 \<longrightarrow> (\<exists>s3. step (CHR ''0'') 0 s2 = Some s3 \<and> st s3 = ST_PAY
                       \<and> pay_zero_count s3 = 1)"
    by blast
  have e2: "\<not> idle_expired s2" using pay_ready_then_seven s1(1) s2(1) by simp
  show ?thesis using inv_pay_ready d s1(1,2) e1 s2 e2 by blast
qed

lemma inv_amount_typed: "inv amount_typed \<and> st amount_typed = ST_AMOUNT \<and> \<not> idle_expired amount_typed
    \<and> atoi (amtbuf amount_typed) = 2 \<and> stock (items amount_typed ! nat (chosen_slot amount_typed)) = 1"
  by (simp add: amount_typed_def exdefs ops timer_seconds_left_def to_int32_def atoi_def isdigit_def)

theorem amount_out_of_range_rejected_witness:
  "inv amount_typed \<and> st amount_typed = ST_AMOUNT \<and> \<not> idle_expired amount_typed
   \<and> atoi (amtbuf amount_typed) > stock (items amount_typed ! nat (chosen_slot amount_typed))
   \<and> (\<exists>s'. step KEY_ENTER 0 amount_typed = Some s' \<and> st s' = ST_AMOUNT \<and> amtbuf s' = []
         \<and> error_cue \<in> set (emitted amount_typed s') \<and> map stock (items s') = [1, 2, 3, 4])"
proof -
  have "map stock (items amount_typed) = [1, 2, 3, 4]"
    by (simp add: amount_typed_def exdefs ops)
  with amount_out_of_range_rejected[of amount_typed 0] inv_amount_typed show ?thesis by auto
qed



lemma run_pay_two_zeros:
  "map_option (\<lambda>s. (st s, chosen_slot s, amount s, map stock (items s)))
     (run (keys ''3B1B00'') (init 0 [])) = Some (ST_DISPENSING, 0, 1, [1, 2, 3, 4])"
  by code_simp

lemma run_restock_typed:
  "map_option (\<lambda>s. (st s, svcbuf s, restock_slot s, map stock (items s)))
     (run (keys ''1234B5A2B8B5'') (init 0 [])) = Some (ST_SVC_RESTOCK_QTY, ''5'', 1, [1, 2, 3, 4])"
  by code_simp

theorem stock_stays_within_bounds_witness:
  "(\<exists>s s'. run (keys ''3B1B00'') (init 0 []) = Some s \<and> reachable s \<and> st s = ST_DISPENSING
        \<and> chosen_slot s = 0 \<and> amount s = 1 \<and> map stock (items s) = [1, 2, 3, 4]
        \<and> step NO_KEY 0 s = Some s' \<and> map stock (items s') = [0, 2, 3, 4])
   \<and> (\<exists>s s'. run (keys ''1234B5A2B8B5'') (init 0 []) = Some s \<and> reachable s
        \<and> st s = ST_SVC_RESTOCK_QTY \<and> svcbuf s = ''5'' \<and> restock_slot s = 1
        \<and> map stock (items s) = [1, 2, 3, 4]
        \<and> step KEY_ENTER 0 s = Some s' \<and> map stock (items s') = [1, 5, 3, 4])
   \<and> (\<exists>s s'. run (keys ''1234B5A2B8B5'') (init 0 []) = Some s \<and> reachable s
        \<and> step (CHR ''7'') 0 s = Some s' \<and> map stock (items s') = [1, 2, 3, 4])
   \<and> inv dispense_short \<and> st dispense_short = ST_DISPENSING \<and> amount dispense_short = 3
   \<and> map stock (items dispense_short) = [1, 2, 3, 4]
   \<and> (\<exists>x'. step NO_KEY 0 dispense_short = Some x' \<and> map stock (items x') = [0, 2, 3, 4])"
proof -
  have r0: "reachable (init 0 [])" by (rule reach_init) simp
  from run_pay_two_zeros obtain s where s: "run (keys ''3B1B00'') (init 0 []) = Some s"
    "st s = ST_DISPENSING" "chosen_slot s = 0" "amount s = 1" "map stock (items s) = [1, 2, 3, 4]"
    by (auto simp: map_option_case split: option.splits)
  have r: "reachable s" by (rule reachable_run[OF r0 s(1)])
  from arg_cong[OF s(5), of length] have l: "length (items s) = 4" by simp
  from arg_cong[OF s(5), of "\<lambda>xs. xs ! 0"] l have n: "stock (items s ! 0) = 1" by simp
  note t1 = stock_stays_within_bounds[OF r, of 0 "[]" NO_KEY 0, THEN conjunct2, THEN conjunct2, THEN conjunct1]
  have "\<exists>s'. step NO_KEY 0 s = Some s' \<and> items s' = set_stock 0 0 (items s)"
    using t1 s(2,3,4) n by auto
  then obtain s' where
    s': "step NO_KEY 0 s = Some s'" "items s' = set_stock 0 0 (items s)" by blast
  have 1: "map stock (items s') = [0, 2, 3, 4]"
    unfolding s'(2) map_stock_set_stock s(5) by simp
  from run_restock_typed obtain q where q: "run (keys ''1234B5A2B8B5'') (init 0 []) = Some q"
    "st q = ST_SVC_RESTOCK_QTY" "svcbuf q = ''5''" "restock_slot q = 1"
    "map stock (items q) = [1, 2, 3, 4]"
    by (auto simp: map_option_case split: option.splits)
  have rq: "reachable q" by (rule reachable_run[OF r0 q(1)])
  note t2 = stock_stays_within_bounds[OF rq, of 0 "[]" KEY_ENTER 0, THEN conjunct2, THEN conjunct2, THEN conjunct1]
  have "\<exists>q'. step KEY_ENTER 0 q = Some q' \<and> items q' = set_stock 1 5 (items q)"
    using t2 q(2,3,4) atoi_5 by auto
  then obtain q' where
    q': "step KEY_ENTER 0 q = Some q'" "items q' = set_stock 1 5 (items q)" by blast
  have 2: "map stock (items q') = [1, 5, 3, 4]"
    unfolding q'(2) map_stock_set_stock q(5) by simp
  note t3 = stock_stays_within_bounds[OF rq, of 0 "[]" "CHR ''7''" 0, THEN conjunct2, THEN conjunct2, THEN conjunct1]
  have "\<exists>q''. step (CHR ''7'') 0 q = Some q'' \<and> items q'' = items q"
    using t3 q(2) by (auto simp: KEY_ENTER_def)
  then obtain q'' where
    q'': "step (CHR ''7'') 0 q = Some q''" "items q'' = items q" by blast
  have 3: "map stock (items q'') = [1, 2, 3, 4]" using q''(2) q(5) by simp
  have A: "\<exists>s s'. run (keys ''3B1B00'') (init 0 []) = Some s \<and> reachable s \<and> st s = ST_DISPENSING
        \<and> chosen_slot s = 0 \<and> amount s = 1 \<and> map stock (items s) = [1, 2, 3, 4]
        \<and> step NO_KEY 0 s = Some s' \<and> map stock (items s') = [0, 2, 3, 4]"
    using s r s'(1) 1 by (intro exI[of _ s] exI[of _ s']) simp
  have B: "\<exists>s s'. run (keys ''1234B5A2B8B5'') (init 0 []) = Some s \<and> reachable s
        \<and> st s = ST_SVC_RESTOCK_QTY \<and> svcbuf s = ''5'' \<and> restock_slot s = 1
        \<and> map stock (items s) = [1, 2, 3, 4]
        \<and> step KEY_ENTER 0 s = Some s' \<and> map stock (items s') = [1, 5, 3, 4]"
    using q rq q'(1) 2 by (intro exI[of _ q] exI[of _ q']) simp
  have C: "\<exists>s s'. run (keys ''1234B5A2B8B5'') (init 0 []) = Some s \<and> reachable s
        \<and> step (CHR ''7'') 0 s = Some s' \<and> map stock (items s') = [1, 2, 3, 4]"
    using q(1) rq q''(1) 3 by (intro exI[of _ q] exI[of _ q'']) simp
  have d: "inv dispense_short" "st dispense_short = ST_DISPENSING" "amount dispense_short = 3"
    "chosen_slot dispense_short = 0" "map stock (items dispense_short) = [1, 2, 3, 4]"
    by (simp_all add: dispense_short_def exdefs ops)
  from arg_cong[OF d(5), of length] have ld: "length (items dispense_short) = 4" by simp
  from arg_cong[OF d(5), of "\<lambda>xs. xs ! 0"] ld
  have nd: "stock (items dispense_short ! 0) = 1" by simp
  from stock_stays_within_bounds[OF r0, of 0 "[]" NO_KEY 0 dispense_short] d(1,2)
  have "\<exists>x'. step NO_KEY 0 dispense_short = Some x'
      \<and> items x' = set_stock (chosen_slot dispense_short)
            (max 0 (stock (items dispense_short ! nat (chosen_slot dispense_short))
                     - amount dispense_short)) (items dispense_short)"
    by blast
  then obtain x' where x': "step NO_KEY 0 dispense_short = Some x'"
    "items x' = set_stock 0 0 (items dispense_short)"
    using d(3,4) nd by auto
  have 4: "map stock (items x') = [0, 2, 3, 4]"
    unfolding x'(2) map_stock_set_stock d(5) by simp
  have D: "\<exists>x'. step NO_KEY 0 dispense_short = Some x' \<and> map stock (items x') = [0, 2, 3, 4]"
    using x'(1) 4 by (intro exI[of _ x']) simp
  from A B C d(1,2,3,5) D show ?thesis by (intro conjI)
qed

lemma init_facts: "st (init 0 []) = ST_MENU \<and> selbuf (init 0 []) = []"
  by (simp add: init_def power_on_def ops)

theorem mode_and_ports_change_only_at_gates_witness:
  "reachable (init 0 []) \<and> st (init 0 []) = ST_MENU
   \<and> (\<exists>s'. step KEY_ENTER 0 (init 0 []) = Some s'
         \<and> service_mode s' = service_mode (init 0 [])
         \<and> port_mapping s' = port_mapping (init 0 []))
   \<and> (\<exists>s s'. reachable s \<and> run (keys ''1234'') (init 0 []) = Some s
         \<and> step KEY_ENTER 0 s = Some s' \<and> port_mapping s' \<noteq> port_mapping s
         \<and> st s = ST_MENU \<and> selbuf s = ''1234'' \<and> st s' = ST_SVC_GATE)"
proof -
  have r: "reachable (init 0 [])" by (rule reach_init) simp
  from run_1234 obtain s where s: "run (keys ''1234'') (init 0 []) = Some s"
    "port_mapping s = normal_ports" "st s = ST_MENU"
    by (auto simp: map_option_case split: option.splits)
  have rs: "reachable s" by (rule reachable_run[OF r s(1)])
  have k: "keys ''1234B'' = keys ''1234'' @ [(KEY_ENTER, 0)]" by (simp add: keys_def KEY_ENTER_def)
  from mode_and_ports_change_only_at_gates[OF rs, of KEY_ENTER 0] obtain s' where
    s': "step KEY_ENTER 0 s = Some s'"
      "port_mapping s' \<noteq> port_mapping s \<longrightarrow>
           (st s = ST_MENU \<and> KEY_ENTER = KEY_ENTER \<and> selbuf s = ''1234'' \<and> st s' = ST_SVC_GATE)
         \<or> (st s = ST_SVC_MENU \<and> KEY_ENTER = KEY_ENTER \<and> selbuf s = ''1234'' \<and> st s' = ST_RETURN_GATE)
         \<or> svc_gate_expired (now_ms s) s \<or> return_gate_expired (now_ms s) s"
    by blast
  have "run (keys ''1234B'') (init 0 []) = Some s'"
    unfolding k run_append s(1) using s'(1) by simp
  with run_1234B have p: "port_mapping s' = admin_ports" "st s' = ST_SVC_GATE" by auto
  have ne: "port_mapping s' \<noteq> port_mapping s"
    unfolding p s(2) by (simp add: admin_ports_def normal_ports_def LEDPORT_ADMIN_def LEDPORT_NORMAL_def)
  have "st s = ST_MENU \<and> selbuf s = ''1234''"
    using s'(2) ne p(2) s(3) by (auto simp: svc_gate_expired_def return_gate_expired_def)
  moreover from mode_and_ports_change_only_at_gates[OF r, of KEY_ENTER 0] r init_facts
  have "\<exists>s'. step KEY_ENTER 0 (init 0 []) = Some s'
         \<and> service_mode s' = service_mode (init 0 [])
         \<and> port_mapping s' = port_mapping (init 0 [])"
    by (auto simp: svc_gate_expired_def return_gate_expired_def)
  ultimately show ?thesis using r rs s(1) s'(1) ne p(2) init_facts by blast
qed

lemma run_first_digit:
  "map_option (\<lambda>s. (timer_active s, idle_deadline s, now_ms s)) (run (keys ''3'') (init 0 []))
     = Some (True, 9394, 394)"
  by code_simp

theorem timer_seconds_left_countdown_witness:
  "\<exists>s. run (keys ''3'') (init 0 []) = Some s \<and> reachable s \<and> timer_active s
      \<and> idle_deadline s = 9394 \<and> now_ms s = 394
      \<and> timer_seconds_left (idle_deadline s) 394 = 9
      \<and> timer_seconds_left (idle_deadline s) 5000 = 5
      \<and> timer_seconds_left (idle_deadline s) 5000 \<le> timer_seconds_left (idle_deadline s) 394
      \<and> timer_seconds_left (idle_deadline s) 9394 = 0"
proof -
  from run_first_digit obtain s where s: "run (keys ''3'') (init 0 []) = Some s"
    "timer_active s" "idle_deadline s = 9394" "now_ms s = 394"
    by (auto simp: map_option_case split: option.splits)
  have r: "reachable s" by (rule reachable_run[OF reach_init s(1)]) simp
  from timer_seconds_left_countdown[of "idle_deadline s" 9394 s 394 5000]
    timer_seconds_left_countdown[of "idle_deadline s" 9394 s 5000 9394] s r
  show ?thesis by (intro exI[of _ s]) simp
qed


end
